theory Spec2Isabelle
  imports Main
begin

section \<open>Errors\<close>

text \<open>
  The exceptions that the classes of \<^verbatim>\<open>GFFFile.py\<close> raise. A method that can raise
  returns \<open>py_error + 'a\<close>, with \<open>Inl\<close> for the exception.
\<close>

datatype py_error = KeyError | ValueError | IndexError | StopIteration

section \<open>OrderedDictionary\<close>

text \<open>
  \<^verbatim>\<open>OrderedDictionary\<close> holds a list \<^verbatim>\<open>__keys\<close> and a dictionary \<^verbatim>\<open>__dict\<close>.
  The record is extensible, as the class is subclassed by \<^verbatim>\<open>GFFAttributes\<close>.
\<close>

record ('k, 'v) OrderedDictionary =
  priv_keys :: "'k list"
  priv_dict :: "'k \<rightharpoonup> 'v"

definition OrderedDictionary_init :: "('k, 'v) OrderedDictionary" where
  "OrderedDictionary_init = \<lparr>priv_keys = [], priv_dict = Map.empty\<rparr>"

text \<open>\<^verbatim>\<open>self.__dict[key]\<close> raises \<^verbatim>\<open>KeyError\<close> by itself when the key is missing.\<close>

definition getitem :: "('k, 'v, 'z) OrderedDictionary_scheme \<Rightarrow> 'k \<Rightarrow> py_error + 'v" where
  "getitem d key =
     (if key \<notin> set (priv_keys d) then Inl KeyError
      else case priv_dict d key of None \<Rightarrow> Inl KeyError | Some v \<Rightarrow> Inr v)"

definition setitem ::
  "'k \<Rightarrow> 'v \<Rightarrow> ('k, 'v, 'z) OrderedDictionary_scheme \<Rightarrow> ('k, 'v, 'z) OrderedDictionary_scheme" where
  "setitem key val d =
     (let d1 = (if key \<notin> set (priv_keys d) then d\<lparr>priv_keys := priv_keys d @ [key]\<rparr> else d)
      in d1\<lparr>priv_dict := (priv_dict d1)(key \<mapsto> val)\<rparr>)"

text \<open>
  \<^verbatim>\<open>__delitem__\<close>: \<^verbatim>\<open>index\<close> raises \<^verbatim>\<open>ValueError\<close> for a missing key, which is turned
  into \<^verbatim>\<open>KeyError\<close>; otherwise the first occurrence leaves the list, then the key leaves
  the dictionary (a \<^verbatim>\<open>KeyError\<close> of that second deletion is not caught).
\<close>

definition delitem ::
  "'k \<Rightarrow> ('k, 'v, 'z) OrderedDictionary_scheme \<Rightarrow> py_error + ('k, 'v, 'z) OrderedDictionary_scheme" where
  "delitem key d =
     (if key \<notin> set (priv_keys d) then Inl KeyError
      else let d1 = d\<lparr>priv_keys := remove1 key (priv_keys d)\<rparr>
           in case priv_dict d1 key of
                None \<Rightarrow> Inl KeyError
              | Some _ \<Rightarrow> Inr (d1\<lparr>priv_dict := (priv_dict d1)(key := None)\<rparr>))"

definition len :: "('k, 'v, 'z) OrderedDictionary_scheme \<Rightarrow> nat" where
  "len d = length (priv_keys d)"

definition contains :: "('k, 'v, 'z) OrderedDictionary_scheme \<Rightarrow> 'k \<Rightarrow> bool" where
  "contains d key \<longleftrightarrow> key \<in> set (priv_keys d)"

text \<open>\<^verbatim>\<open>keys()\<close> returns \<^verbatim>\<open>copy.copy(self.__keys)\<close>: as a value, the list itself.\<close>

definition keys :: "('k, 'v, 'z) OrderedDictionary_scheme \<Rightarrow> 'k list" where
  "keys d = priv_keys d"

text \<open>A sequence of assignments \<^verbatim>\<open>d[k] = v\<close>, in order.\<close>

fun set_all ::
  "('k \<times> 'v) list \<Rightarrow> ('k, 'v, 'z) OrderedDictionary_scheme \<Rightarrow> ('k, 'v, 'z) OrderedDictionary_scheme" where
  "set_all [] d = d"
| "set_all ((k, v) # ops) d = set_all ops (setitem k v d)"

text \<open>
  The keys of a sequence of assignments in the order of their first occurrence:
  \<open>remdups\<close> keeps the last occurrence of each element, so on the reversed list it keeps
  the first.
\<close>

definition first_seen :: "'a list \<Rightarrow> 'a list" where
  "first_seen xs = rev (remdups (rev xs))"

section \<open>Python strings\<close>

text \<open>
  The program is Python 2: a \<^verbatim>\<open>str\<close> is a sequence of bytes, here a \<open>string\<close>. This section
  gives the methods of \<^verbatim>\<open>str\<close> and the functions of the standard library that the
  classes call, as the Python 2.7 library defines them.
\<close>

text \<open>\<^verbatim>\<open>s.split(c)\<close> for a separator of one character: never the empty list.\<close>

fun split_on :: "char \<Rightarrow> string \<Rightarrow> string list" where
  "split_on c [] = [[]]"
| "split_on c (x # xs) =
     (if x = c then [] # split_on c xs
      else case split_on c xs of [] \<Rightarrow> [[x]] | seg # segs \<Rightarrow> (x # seg) # segs)"

text \<open>\<^verbatim>\<open>sep.join(items)\<close>.\<close>

fun join :: "string \<Rightarrow> string list \<Rightarrow> string" where
  "join sep [] = []"
| "join sep [x] = x"
| "join sep (x # y # ys) = x @ sep @ join sep (y # ys)"

text \<open>
  Whitespace of \<^verbatim>\<open>str.strip()\<close>, \<^verbatim>\<open>str.split()\<close> and \<^verbatim>\<open>int()\<close>: space, tab, newline,
  vertical tab, form feed and carriage return.
\<close>

definition isspace :: "char \<Rightarrow> bool" where
  "isspace c \<longleftrightarrow> c = CHR '' '' \<or> c = CHR 0x09 \<or> c = CHR 0x0A \<or> c = CHR 0x0B
     \<or> c = CHR 0x0C \<or> c = CHR 0x0D"

definition strip :: "string \<Rightarrow> string" where
  "strip s = rev (dropWhile isspace (rev (dropWhile isspace s)))"

text \<open>\<^verbatim>\<open>s.index(c)\<close>: the position of the first \<open>c\<close>, or \<^verbatim>\<open>ValueError\<close>.\<close>

definition str_index :: "string \<Rightarrow> char \<Rightarrow> py_error + nat" where
  "str_index s c =
     (if c \<in> set s then Inr (length (takeWhile (\<lambda>x. x \<noteq> c) s)) else Inl ValueError)"

definition startswith :: "string \<Rightarrow> string \<Rightarrow> bool" where
  "startswith s prefix \<longleftrightarrow> take (length prefix) s = prefix"

definition endswith :: "string \<Rightarrow> string \<Rightarrow> bool" where
  "endswith s suffix \<longleftrightarrow>
     length suffix \<le> length s \<and> drop (length s - length suffix) s = suffix"

text \<open>\<^verbatim>\<open>s.split()\<close> without a separator: the maximal runs of characters that are not whitespace.\<close>

fun words_from :: "string \<Rightarrow> string \<Rightarrow> string list" where
  "words_from cur [] = (if cur = [] then [] else [cur])"
| "words_from cur (c # cs) =
     (if isspace c then (if cur = [] then words_from [] cs else cur # words_from [] cs)
      else words_from (cur @ [c]) cs)"

definition split_ws :: "string \<Rightarrow> string list" where
  "split_ws s = words_from [] s"

subsection \<open>urllib.quote and urllib.unquote\<close>

text \<open>
  \<^verbatim>\<open>urllib.unquote\<close> replaces every \<^verbatim>\<open>%\<close> that is followed by two hexadecimal digits (of
  either case) by the byte they denote, and leaves every other character, also a \<^verbatim>\<open>%\<close>
  without two such digits, as it is.
\<close>

definition hexval :: "char \<Rightarrow> nat option" where
  "hexval c =
     (let n = (of_char c :: nat)
      in if 48 \<le> n \<and> n \<le> 57 then Some (n - 48)
         else if 65 \<le> n \<and> n \<le> 70 then Some (n - 55)
         else if 97 \<le> n \<and> n \<le> 102 then Some (n - 87)
         else None)"

fun unquote :: "string \<Rightarrow> string" where
  "unquote (c # a # b # rest) =
     (if c = CHR ''%'' then
        (case (hexval a, hexval b) of
           (Some x, Some y) \<Rightarrow> char_of (16 * x + y) # unquote rest
         | _ \<Rightarrow> c # unquote (a # b # rest))
      else c # unquote (a # b # rest))"
| "unquote s = s"

text \<open>
  \<^verbatim>\<open>urllib.quote(s, safe)\<close> keeps the letters, the digits, \<^verbatim>\<open>_.-\<close> and the characters of
  \<open>safe\<close>, and replaces every other byte by \<^verbatim>\<open>%\<close> and its two upper-case hexadecimal
  digits.
\<close>

definition always_safe :: string where
  "always_safe = ''ABCDEFGHIJKLMNOPQRSTUVWXYZabcdefghijklmnopqrstuvwxyz0123456789_.-''"

definition hexdigit :: "nat \<Rightarrow> char" where
  "hexdigit n = ''0123456789ABCDEF'' ! n"

definition quoter :: "string \<Rightarrow> char \<Rightarrow> string" where
  "quoter safe c =
     (if c \<in> set safe \<or> c \<in> set always_safe then [c]
      else [CHR ''%'', hexdigit (of_char c div 16), hexdigit (of_char c mod 16)])"

definition quote :: "string \<Rightarrow> string \<Rightarrow> string" where
  "quote s safe = concat (map (quoter safe) s)"

section \<open>GFFAttributes\<close>

text \<open>
  Python values, as far as the argument of \<^verbatim>\<open>GFFAttributes.encode\<close> needs them. The test
  \<^verbatim>\<open>x in (True,False)\<close> compares with \<^verbatim>\<open>==\<close>, and in Python \<^verbatim>\<open>1 == True\<close> and
  \<^verbatim>\<open>0 == False\<close> hold.
\<close>

datatype pyval = PyNone | PyBool bool | PyInt int | PyStr string

fun py_eq :: "pyval \<Rightarrow> pyval \<Rightarrow> bool" where
  "py_eq PyNone PyNone = True"
| "py_eq (PyBool a) (PyBool b) = (a = b)"
| "py_eq (PyBool a) (PyInt i) = (i = (if a then 1 else 0))"
| "py_eq (PyInt i) (PyBool b) = (i = (if b then 1 else 0))"
| "py_eq (PyInt i) (PyInt j) = (i = j)"
| "py_eq (PyStr s) (PyStr t) = (s = t)"
| "py_eq _ _ = False"

definition py_in :: "pyval \<Rightarrow> pyval list \<Rightarrow> bool" where
  "py_in x xs \<longleftrightarrow> list_ex (py_eq x) xs"

fun truthy :: "pyval \<Rightarrow> bool" where
  "truthy PyNone = False"
| "truthy (PyBool b) = b"
| "truthy (PyInt i) = (i \<noteq> 0)"
| "truthy (PyStr s) = (s \<noteq> [])"

record GFFAttributes = "(string, string) OrderedDictionary" +
  priv_nokeys :: "string list"
  priv_multivalued_attributes :: "string list"
  priv_encode_values :: pyval
  priv_trailing_semicolon :: bool

text \<open>One pass of the loop of \<^verbatim>\<open>__init__\<close> over an item of the split string.\<close>

definition key_value :: "string \<Rightarrow> string \<times> string" where
  "key_value item =
     (case str_index item (CHR ''='') of
        Inr i \<Rightarrow> (strip (take i item), strip (drop (i + 1) item))
      | Inl _ \<Rightarrow> ([], strip item))"

definition store_item :: "string \<Rightarrow> GFFAttributes \<Rightarrow> GFFAttributes" where
  "store_item item self =
     (if item = [] then self
      else let (key, val) = key_value item;
               val = unquote val
           in if key = [] then self\<lparr>priv_nokeys := priv_nokeys self @ [val]\<rparr>
              else setitem key val self)"

definition GFFAttributes_empty :: GFFAttributes where
  "GFFAttributes_empty =
     \<lparr>priv_keys = [], priv_dict = Map.empty, priv_nokeys = [],
      priv_multivalued_attributes = [''Parent'', ''Alias'', ''Note'', ''Dbxref'', ''Ontology_term''],
      priv_encode_values = PyBool True, priv_trailing_semicolon = False\<rparr>"

text \<open>
  \<^verbatim>\<open>GFFAttributes(attribute_data)\<close>. The default \<^verbatim>\<open>None\<close> and the empty string both fail
  the test \<^verbatim>\<open>if attribute_data\<close>, so the argument is a string here.
\<close>

definition GFFAttributes_init :: "string \<Rightarrow> GFFAttributes" where
  "GFFAttributes_init attribute_data =
     (if attribute_data \<noteq> [] then
        (fold store_item (split_on (CHR '';'') attribute_data) GFFAttributes_empty)
          \<lparr>priv_trailing_semicolon := endswith attribute_data '';''\<rparr>
      else GFFAttributes_empty)"

definition nokeys :: "GFFAttributes \<Rightarrow> string list" where
  "nokeys self = priv_nokeys self"

text \<open>
  \<^verbatim>\<open>encode(new_setting)\<close>; \<open>PyNone\<close> is the call without an argument. The result is the
  returned value or the exception, with the object as the call leaves it.
\<close>

definition encode :: "pyval \<Rightarrow> GFFAttributes \<Rightarrow> (py_error + pyval) \<times> GFFAttributes" where
  "encode new_setting self =
     (if py_in new_setting [PyBool True, PyBool False] then
        (Inr new_setting, self\<lparr>priv_encode_values := new_setting\<rparr>)
      else if new_setting \<noteq> PyNone then (Inl ValueError, self)
      else (Inr (priv_encode_values self), self))"

definition escape_value :: "GFFAttributes \<Rightarrow> string \<Rightarrow> string \<Rightarrow> py_error + string" where
  "escape_value self key val =
     (if key \<in> set (priv_multivalued_attributes self) then Inr (quote val '' ,:^*$@!+?|'')
      else case getitem self key of
             Inl e \<Rightarrow> Inl e
           | Inr v \<Rightarrow> Inr (quote v '' :^*$@!+?|''))"

text \<open>The two loops of \<^verbatim>\<open>__repr__\<close> over the keys; a \<^verbatim>\<open>KeyError\<close> ends them.\<close>

fun keyed_items :: "GFFAttributes \<Rightarrow> string list \<Rightarrow> py_error + string list" where
  "keyed_items self [] = Inr []"
| "keyed_items self (key # ks) =
     (case getitem self key of
        Inl e \<Rightarrow> Inl e
      | Inr v \<Rightarrow>
          (case (if truthy (priv_encode_values self) then escape_value self key v else Inr v) of
             Inl e \<Rightarrow> Inl e
           | Inr ev \<Rightarrow>
               (case keyed_items self ks of
                  Inl e \<Rightarrow> Inl e
                | Inr items \<Rightarrow> Inr ((key @ ''='' @ ev) # items))))"

definition GFFAttributes_repr :: "GFFAttributes \<Rightarrow> py_error + string" where
  "GFFAttributes_repr self =
     (case keyed_items self (keys self) of
        Inl e \<Rightarrow> Inl e
      | Inr items \<Rightarrow>
          Inr (join '';'' (items @ priv_nokeys self
                 @ (if priv_trailing_semicolon self then [[]] else []))))"

subsection \<open>The object and the lists it refers to\<close>

text \<open>
  \<^verbatim>\<open>nokeys()\<close> returns the list object \<^verbatim>\<open>self.__nokeys\<close> itself, and \<^verbatim>\<open>keys()\<close> returns
  \<^verbatim>\<open>copy.copy(self.__keys)\<close>, a new list object. To tell the two apart, list objects live
  in a store and are named by references; \<open>next_ref\<close> is the next unused reference.
\<close>

type_synonym ref = nat

record store =
  lists :: "ref \<rightharpoonup> string list"
  next_ref :: ref

definition new_list :: "string list \<Rightarrow> store \<Rightarrow> ref \<times> store" where
  "new_list xs h = (next_ref h, h\<lparr>lists := (lists h)(next_ref h \<mapsto> xs), next_ref := Suc (next_ref h)\<rparr>)"

definition list_get :: "ref \<Rightarrow> store \<Rightarrow> string list" where
  "list_get r h = (case lists h r of Some xs \<Rightarrow> xs | None \<Rightarrow> [])"

text \<open>\<^verbatim>\<open>l.append(x)\<close> and \<^verbatim>\<open>del(l[:])\<close> on the list object that \<open>r\<close> refers to.\<close>

definition list_append :: "ref \<Rightarrow> string \<Rightarrow> store \<Rightarrow> store" where
  "list_append r x h =
     (case lists h r of Some xs \<Rightarrow> h\<lparr>lists := (lists h)(r \<mapsto> xs @ [x])\<rparr> | None \<Rightarrow> h)"

definition list_clear :: "ref \<Rightarrow> store \<Rightarrow> store" where
  "list_clear r h =
     (case lists h r of Some xs \<Rightarrow> h\<lparr>lists := (lists h)(r \<mapsto> [])\<rparr> | None \<Rightarrow> h)"

text \<open>
  A \<^verbatim>\<open>GFFAttributes\<close> object whose attributes \<^verbatim>\<open>__keys\<close> and \<^verbatim>\<open>__nokeys\<close> are references
  into the store; \<open>object_value\<close> reads the object as the record of the sections above.
\<close>

record attributes_object =
  keys_at :: ref
  nokeys_at :: ref
  dict_of :: "string \<rightharpoonup> string"
  multivalued_of :: "string list"
  encode_of :: pyval
  trailing_of :: bool

definition object_value :: "store \<Rightarrow> attributes_object \<Rightarrow> GFFAttributes" where
  "object_value h obj =
     \<lparr>priv_keys = list_get (keys_at obj) h, priv_dict = dict_of obj,
      priv_nokeys = list_get (nokeys_at obj) h,
      priv_multivalued_attributes = multivalued_of obj,
      priv_encode_values = encode_of obj, priv_trailing_semicolon = trailing_of obj\<rparr>"

text \<open>
  The constructor creates the list of keys (in \<^verbatim>\<open>OrderedDictionary.__init__\<close>), then the
  list of bare tokens, and fills both while it reads the string.
\<close>

definition GFFAttributes_new :: "string \<Rightarrow> store \<Rightarrow> attributes_object \<times> store" where
  "GFFAttributes_new attribute_data h =
     (let self = GFFAttributes_init attribute_data;
          (rk, h1) = new_list (priv_keys self) h;
          (rn, h2) = new_list (priv_nokeys self) h1
      in (\<lparr>keys_at = rk, nokeys_at = rn, dict_of = priv_dict self,
           multivalued_of = priv_multivalued_attributes self,
           encode_of = priv_encode_values self,
           trailing_of = priv_trailing_semicolon self\<rparr>, h2))"

definition nokeys_method :: "attributes_object \<Rightarrow> ref" where
  "nokeys_method obj = nokeys_at obj"

definition keys_method :: "attributes_object \<Rightarrow> store \<Rightarrow> ref \<times> store" where
  "keys_method obj h = new_list (list_get (keys_at obj) h) h"

definition repr_method :: "attributes_object \<Rightarrow> store \<Rightarrow> py_error + string" where
  "repr_method obj h = GFFAttributes_repr (object_value h obj)"

text \<open>The references of the object name two different list objects of the store.\<close>

definition object_in_store :: "store \<Rightarrow> attributes_object \<Rightarrow> bool" where
  "object_in_store h obj \<longleftrightarrow>
     keys_at obj \<noteq> nokeys_at obj \<and> keys_at obj < next_ref h \<and> nokeys_at obj < next_ref h
     \<and> lists h (keys_at obj) \<noteq> None \<and> lists h (nokeys_at obj) \<noteq> None"

section \<open>GFFID\<close>

record GFFID =
  code :: string
  name :: string
  index :: int

text \<open>
  \<^verbatim>\<open>int(s)\<close> in base ten: whitespace around the number is dropped, one sign is allowed, and
  the rest is a non-empty run of decimal digits; anything else raises \<^verbatim>\<open>ValueError\<close>
  (here \<open>None\<close>).
\<close>

definition isdigit :: "char \<Rightarrow> bool" where
  "isdigit c \<longleftrightarrow> 48 \<le> (of_char c :: nat) \<and> (of_char c :: nat) \<le> 57"

definition digits_value :: "string \<Rightarrow> int option" where
  "digits_value ds =
     (if ds \<noteq> [] \<and> list_all isdigit ds
      then Some (int (foldl (\<lambda>n c. 10 * n + (of_char c - 48)) 0 ds)) else None)"

definition py_int :: "string \<Rightarrow> int option" where
  "py_int s =
     (case strip s of
        [] \<Rightarrow> None
      | c # ds \<Rightarrow>
          if c = CHR ''-'' then map_option uminus (digits_value ds)
          else if c = CHR ''+'' then digits_value ds
          else digits_value (c # ds))"

text \<open>The format \<^verbatim>\<open>%d\<close>.\<close>

fun str_of_nat :: "nat \<Rightarrow> string" where
  "str_of_nat n =
     (if n < 10 then [char_of (48 + n)] else str_of_nat (n div 10) @ [char_of (48 + n mod 10)])"

declare str_of_nat.simps [simp del]

definition format_d :: "int \<Rightarrow> string" where
  "format_d i = (if i < 0 then CHR ''-'' # str_of_nat (nat (- i)) else str_of_nat (nat i))"

text \<open>
  \<^verbatim>\<open>GFFID(gff_id)\<close>. The split is never empty, so with a length other than one the items
  0 and 1 exist. A failing \<^verbatim>\<open>int\<close> is re-raised as \<^verbatim>\<open>ValueError\<close>, and no object results.
\<close>

definition GFFID_init :: "string \<Rightarrow> py_error + GFFID" where
  "GFFID_init gff_id =
     (let items = split_on (CHR '':'') gff_id;
          (c, n) = (if length items = 1 then ([], gff_id) else (items ! 0, items ! 1))
      in if length items > 2 then
           (case py_int (items ! 2) of
              None \<Rightarrow> Inl ValueError
            | Some i \<Rightarrow> Inr \<lparr>code = c, name = n, index = i\<rparr>)
         else Inr \<lparr>code = c, name = n, index = 0\<rparr>)"

definition GFFID_repr :: "GFFID \<Rightarrow> string" where
  "GFFID_repr self =
     (if code self = [] then name self
      else code self @ '':'' @ name self @ '':'' @ format_d (index self))"

section \<open>GFFIterator\<close>

datatype line_type = PRAGMA | COMMENT | ANNOTATION

text \<open>
  The record that the iterator yields. Its columns are held by the base class
  \<^verbatim>\<open>TabDataLine\<close> of the external module \<^verbatim>\<open>TabFile\<close>; the model keeps the arguments that
  the iterator passes to the constructor: the line, its number and its type.
\<close>

record GFFDataLine =
  dl_line :: string
  dl_lineno :: nat
  dl_type :: line_type

definition GFFDataLine_init :: "string \<Rightarrow> nat \<Rightarrow> line_type \<Rightarrow> GFFDataLine" where
  "GFFDataLine_init line lineno gff_line_type =
     \<lparr>dl_line = line, dl_lineno = lineno, dl_type = gff_line_type\<rparr>"

text \<open>
  The iterator: the unread rest of the file, whether the iterator opened the file itself,
  whether it has closed it, and the line counter.
\<close>

record GFFIterator =
  priv_fp :: string
  priv_close_fp :: bool
  fp_closed :: bool
  priv_lineno :: nat

definition GFFIterator_init :: "string \<Rightarrow> bool \<Rightarrow> GFFIterator" where
  "GFFIterator_init content own =
     \<lparr>priv_fp = content, priv_close_fp = own, fp_closed = False, priv_lineno = 0\<rparr>"

text \<open>
  \<^verbatim>\<open>fp.readline()\<close>: the text up to and with the next newline, or all that is left; the
  empty string at the end of the file.
\<close>

definition readline :: "string \<Rightarrow> string \<times> string" where
  "readline s =
     (case dropWhile (\<lambda>c. c \<noteq> CHR 0x0A) s of
        [] \<Rightarrow> (s, [])
      | nl # rest \<Rightarrow> (takeWhile (\<lambda>c. c \<noteq> CHR 0x0A) s @ [nl], rest))"

definition GFFIterator_next :: "GFFIterator \<Rightarrow> (py_error + GFFDataLine) \<times> GFFIterator" where
  "GFFIterator_next self =
     (let (line, rest) = readline (priv_fp self);
          self = self\<lparr>priv_fp := rest, priv_lineno := priv_lineno self + 1\<rparr>
      in if line \<noteq> [] then
           (let type = (if startswith line ''##'' then PRAGMA
                        else if startswith line ''#'' then COMMENT
                        else ANNOTATION)
            in (Inr (GFFDataLine_init line (priv_lineno self) type), self))
         else (Inl StopIteration,
               if priv_close_fp self then self\<lparr>fp_closed := True\<rparr> else self))"

text \<open>
  The loop \<^verbatim>\<open>for line in GFFIterator(...)\<close>: the records up to \<^verbatim>\<open>StopIteration\<close>. Every
  record consumes at least one character of the file, so the loop ends.
\<close>

function iterate :: "GFFIterator \<Rightarrow> GFFDataLine list" where
  "iterate self =
     (case GFFIterator_next self of
        (Inl stop, self') \<Rightarrow> []
      | (Inr line, self') \<Rightarrow> line # iterate self')"
  by pat_completeness auto
termination
proof (relation "measure (\<lambda>self. length (priv_fp self))")
  show "wf (measure (\<lambda>self. length (priv_fp self)))"
    by simp
next
  fix self :: GFFIterator and res self' line
  assume n: "(res, self') = GFFIterator_next self" and r: "res = Inr line"
  obtain l rest where lr: "readline (priv_fp self) = (l, rest)"
    by (cases "readline (priv_fp self)")
  from n r lr have ne: "l \<noteq> []" and fp: "priv_fp self' = rest"
    by (auto simp: GFFIterator_next_def Let_def split: if_splits)
  have "length (dropWhile (\<lambda>c. c \<noteq> CHR 0x0A) (priv_fp self)) \<le> length (priv_fp self)"
    by (rule length_dropWhile_le)
  with lr ne have "length rest < length (priv_fp self)"
    by (auto simp: readline_def split: list.splits)
  with fp show "(self', self) \<in> measure (\<lambda>self. length (priv_fp self))"
    by simp
qed

declare iterate.simps [simp del]

section \<open>GFFFile\<close>

text \<open>
  The table: format, version and the stored lines (the data of the external base class
  \<^verbatim>\<open>TabFile\<close>, to which \<^verbatim>\<open>append\<close> adds a line).
\<close>

record GFFFile =
  priv_format :: string
  priv_version :: "string option"
  data :: "GFFDataLine list"

definition GFFFile_empty :: "string \<Rightarrow> GFFFile" where
  "GFFFile_empty format = \<lparr>priv_format = format, priv_version = None, data = []\<rparr>"

text \<open>
  The body of the loop of \<^verbatim>\<open>GFFFile.__init__\<close> for one record. \<^verbatim>\<open>str(line)\<close> is the
  rendering of the external class \<^verbatim>\<open>TabDataLine\<close>, a parameter \<open>str_of\<close> here.
  \<^verbatim>\<open>pragma[0]\<close> and \<^verbatim>\<open>pragma[1]\<close> raise \<^verbatim>\<open>IndexError\<close> when the word is missing.
\<close>

definition take_record ::
  "(GFFDataLine \<Rightarrow> string) \<Rightarrow> GFFDataLine \<Rightarrow> GFFFile \<Rightarrow> py_error + GFFFile" where
  "take_record str_of line self =
     (if dl_type line = ANNOTATION then Inr (self\<lparr>data := data self @ [line]\<rparr>)
      else if dl_type line = PRAGMA then
        (case split_ws (drop 2 (str_of line)) of
           [] \<Rightarrow> Inl IndexError
         | w # ws \<Rightarrow>
             if w = ''gff-version'' then
               (case ws of [] \<Rightarrow> Inl IndexError | v # _ \<Rightarrow> Inr (self\<lparr>priv_version := Some v\<rparr>))
             else Inr self)
      else Inr self)"

fun take_records ::
  "(GFFDataLine \<Rightarrow> string) \<Rightarrow> GFFDataLine list \<Rightarrow> GFFFile \<Rightarrow> py_error + GFFFile" where
  "take_records str_of [] self = Inr self"
| "take_records str_of (line # rest) self =
     (case take_record str_of line self of
        Inl e \<Rightarrow> Inl e
      | Inr self' \<Rightarrow> take_records str_of rest self')"

text \<open>
  \<^verbatim>\<open>GFFFile(gff_file, fp)\<close> on a file with the given content; \<open>own\<close> says that no \<^verbatim>\<open>fp\<close>
  was passed and the iterator opens the file itself.
\<close>

definition GFFFile_init ::
  "(GFFDataLine \<Rightarrow> string) \<Rightarrow> string \<Rightarrow> bool \<Rightarrow> string \<Rightarrow> py_error + GFFFile" where
  "GFFFile_init str_of content own format =
     take_records str_of (iterate (GFFIterator_init content own)) (GFFFile_empty format)"

section \<open>The words of the specification\<close>

subsection \<open>The reading of a segment, in the words of the specification\<close>

text \<open>
  The specification describes what a segment of the attribute string contributes by the text
  before and after its first \<^verbatim>\<open>=\<close>. These definitions follow its words, for comparison
  with \<open>store_item\<close>: a segment is keyed when it has a \<^verbatim>\<open>=\<close> with a non-empty stripped
  text before it; its key is that text; its value is the stripped, percent-decoded text
  after the first \<^verbatim>\<open>=\<close>, or the stripped, decoded segment when there is no \<^verbatim>\<open>=\<close>.
\<close>

definition spec_keyed :: "string \<Rightarrow> bool" where
  "spec_keyed seg \<longleftrightarrow> CHR ''='' \<in> set seg \<and> strip (takeWhile (\<lambda>c. c \<noteq> CHR ''='') seg) \<noteq> []"

definition spec_key :: "string \<Rightarrow> string" where
  "spec_key seg = strip (takeWhile (\<lambda>c. c \<noteq> CHR ''='') seg)"

definition spec_value :: "string \<Rightarrow> string" where
  "spec_value seg =
     unquote (strip (if CHR ''='' \<in> set seg then tl (dropWhile (\<lambda>c. c \<noteq> CHR ''='') seg) else seg))"

subsection \<open>The type of a line, in the words of the specification\<close>

definition spec_line_type :: "string \<Rightarrow> line_type" where
  "spec_line_type l =
     (if take 2 l = ''##'' then PRAGMA else if take 1 l = ''#'' then COMMENT else ANNOTATION)"

subsection \<open>The version directive, in the words of the specification\<close>

text \<open>
  A record is a recognized version directive when it is a pragma whose text after the two
  marker characters starts with the word \<^verbatim>\<open>gff-version\<close> followed by a value. The
  constructor fails on a pragma without a first word, and on a \<^verbatim>\<open>gff-version\<close> pragma
  without a value; \<open>spec_pragma_ok\<close> excludes the two.
\<close>

definition spec_version_directive :: "(GFFDataLine \<Rightarrow> string) \<Rightarrow> GFFDataLine \<Rightarrow> string option" where
  "spec_version_directive str_of line =
     (if dl_type line = PRAGMA then
        (case split_ws (drop 2 (str_of line)) of
           w # v # _ \<Rightarrow> if w = ''gff-version'' then Some v else None
         | _ \<Rightarrow> None)
      else None)"

definition spec_pragma_ok :: "(GFFDataLine \<Rightarrow> string) \<Rightarrow> GFFDataLine \<Rightarrow> bool" where
  "spec_pragma_ok str_of line \<longleftrightarrow>
     (case split_ws (drop 2 (str_of line)) of
        [] \<Rightarrow> dl_type line \<noteq> PRAGMA
      | [w] \<Rightarrow> dl_type line \<noteq> PRAGMA \<or> w \<noteq> ''gff-version''
      | _ \<Rightarrow> True)"

subsection \<open>The written form of an attribute string, in the words of the specification\<close>

text \<open>
  The escaped text that the format writes for the value of a key (the escape alphabet of
  the specification), and the keys of the keyed segments of a string, which are what
  ``repeated keys'' refers to.
\<close>

definition spec_written :: "string \<Rightarrow> string \<Rightarrow> string" where
  "spec_written key val =
     quote val (if key \<in> set [''Parent'', ''Alias'', ''Note'', ''Dbxref'', ''Ontology_term'']
                then '' ,:^*$@!+?|'' else '' :^*$@!+?|'')"

definition spec_item_keys :: "string \<Rightarrow> string list" where
  "spec_item_keys s =
     map spec_key (filter spec_keyed (split_on (CHR '';'') s))"

section \<open>Properties of OrderedDictionary\<close>

lemma first_seen_snoc:
  "first_seen (xs @ [x]) = (if x \<in> set xs then first_seen xs else first_seen xs @ [x])"
  by (simp add: first_seen_def)

lemma set_first_seen: "set (first_seen xs) = set xs"
  by (simp add: first_seen_def)

lemma distinct_first_seen: "distinct (first_seen xs)"
  by (simp add: first_seen_def)

lemma set_all_snoc: "set_all (ops @ [(k, v)]) d = setitem k v (set_all ops d)"
  by (induction ops d rule: set_all.induct) simp_all

lemma priv_keys_setitem:
  "priv_keys (setitem k v d) = (if k \<in> set (priv_keys d) then priv_keys d else priv_keys d @ [k])"
  by (simp add: setitem_def Let_def)

lemma priv_dict_setitem: "priv_dict (setitem k v d) = (priv_dict d)(k \<mapsto> v)"
  by (simp add: setitem_def Let_def)

lemma set_all_keys:
  "priv_keys (set_all ops OrderedDictionary_init) = first_seen (map fst ops)"
proof (induction ops rule: rev_induct)
  case Nil
  show ?case by (simp add: OrderedDictionary_init_def first_seen_def)
next
  case (snoc p ops)
  obtain k v where p: "p = (k, v)" by (cases p)
  have "k \<in> set (priv_keys (set_all ops OrderedDictionary_init)) \<longleftrightarrow> k \<in> set (map fst ops)"
    by (simp only: snoc.IH set_first_seen)
  then show ?case
    by (simp add: p set_all_snoc priv_keys_setitem snoc.IH first_seen_snoc)
qed

lemma set_all_dict:
  "priv_dict (set_all ops d) = priv_dict d ++ map_of (rev ops)"
proof (induction ops d rule: set_all.induct)
  case (1 d)
  show ?case by simp
next
  case (2 k v ops d)
  have "priv_dict (set_all ((k, v) # ops) d) = priv_dict (setitem k v d) ++ map_of (rev ops)"
    using "2.IH" by simp
  also have "\<dots> = (priv_dict d)(k \<mapsto> v) ++ map_of (rev ops)"
    by (simp only: priv_dict_setitem)
  also have "\<dots> = priv_dict d ++ map_of (rev ((k, v) # ops))"
    by (simp add: map_add_assoc [symmetric])
  finally show ?case .
qed

lemma set_all_same_keys:
  "set (priv_keys (set_all ops OrderedDictionary_init)) = dom (priv_dict (set_all ops OrderedDictionary_init))"
  unfolding set_all_keys set_all_dict
  by (simp add: set_first_seen OrderedDictionary_init_def dom_map_of_conv_image_fst)

lemma set_all_lookup:
  "priv_dict (set_all ops OrderedDictionary_init) = map_of (rev ops)"
  unfolding set_all_dict by (simp add: OrderedDictionary_init_def)

text \<open>
  Claim C7. After any sequence of assignments to an empty \<^verbatim>\<open>OrderedDictionary\<close>,
  \<^verbatim>\<open>keys()\<close> lists the keys in the order in which each was first assigned, however often
  a key was assigned again; the key list and the dictionary hold the same set of keys;
  assigning to a key that is present changes its value and not the key order; and every
  listed key reads back the value of its last assignment.
\<close>

theorem OrderedDictionary_keys_first_insertion_order:
  fixes ops :: "('k \<times> 'v) list"
  defines "d \<equiv> set_all ops (OrderedDictionary_init :: ('k, 'v) OrderedDictionary)"
  shows "keys d = first_seen (map fst ops) \<and>
    set (priv_keys d) = dom (priv_dict d) \<and>
    (\<forall>k v. k \<in> set (keys d) \<longrightarrow>
           keys (setitem k v d) = keys d \<and> getitem (setitem k v d) k = Inr v) \<and>
   (\<forall>k \<in> set (keys d). \<exists>v. map_of (rev ops) k = Some v \<and> getitem d k = Inr v)"
proof -
  have a: "keys d = first_seen (map fst ops)"
    by (simp add: keys_def d_def set_all_keys)
  have b: "set (priv_keys d) = dom (priv_dict d)"
    unfolding d_def by (rule set_all_same_keys)
  have c: "keys (setitem k v d) = keys d \<and> getitem (setitem k v d) k = Inr v"
    if "k \<in> set (keys d)" for k v
    using that by (simp add: keys_def getitem_def priv_keys_setitem priv_dict_setitem)
  have e: "\<exists>v. map_of (rev ops) k = Some v \<and> getitem d k = Inr v" if "k \<in> set (keys d)" for k
  proof -
    from that b have "k \<in> dom (priv_dict d)" by (simp add: keys_def)
    then obtain v where "priv_dict d k = Some v" by blast
    with that show ?thesis
      by (simp add: getitem_def keys_def d_def set_all_lookup)
  qed
  from a b c e show ?thesis by blast
qed

theorem OrderedDictionary_keys_first_insertion_order_witness:
  "keys (set_all [(''b'', 1::nat), (''a'', 2), (''b'', 3)] OrderedDictionary_init) = [''b'', ''a'']
   \<and> ''b'' \<in> set (keys (set_all [(''b'', 1::nat), (''a'', 2), (''b'', 3)] OrderedDictionary_init))
   \<and> keys (setitem ''b'' 9 (set_all [(''b'', 1::nat), (''a'', 2), (''b'', 3)] OrderedDictionary_init))
       = [''b'', ''a'']
   \<and> getitem (set_all [(''b'', 1::nat), (''a'', 2), (''b'', 3)] OrderedDictionary_init) ''b'' = Inr 3"
proof -
  define ops where "ops = [(''b'', 1::nat), (''a'', 2), (''b'', 3)]"
  define d where "d = set_all ops (OrderedDictionary_init :: (string, nat) OrderedDictionary)"
  note t = OrderedDictionary_keys_first_insertion_order [of ops, folded d_def]
  have k: "keys d = [''b'', ''a'']"
    using t by (simp add: ops_def first_seen_def)
  then have m: "''b'' \<in> set (keys d)"
    by simp
  from t m have s: "keys (setitem ''b'' 9 d) = keys d"
    by blast
  from t m obtain v where "map_of (rev ops) ''b'' = Some v" and g: "getitem d ''b'' = Inr v"
    by blast
  then have "v = 3"
    by (simp add: ops_def)
  with k m s g show ?thesis
    by (simp add: d_def ops_def)
qed

section \<open>Properties of GFFAttributes\<close>

subsection \<open>The encoding flag\<close>

lemma encode_boolean:
  "encode (PyBool b) self = (Inr (PyBool b), self\<lparr>priv_encode_values := PyBool b\<rparr>)"
  by (simp add: encode_def py_in_def)

lemma encode_query: "encode PyNone self = (Inr (priv_encode_values self), self)"
  by (simp add: encode_def py_in_def)

lemma encode_string: "encode (PyStr s) self = (Inl ValueError, self)"
  by (simp add: encode_def py_in_def)

lemma encode_other_integer:
  "i \<noteq> 0 \<Longrightarrow> i \<noteq> 1 \<Longrightarrow> encode (PyInt i) self = (Inl ValueError, self)"
  by (simp add: encode_def py_in_def)

text \<open>
  Claim C3. \<^verbatim>\<open>encode(x)\<close> is to fail, leaving the flag as it was, for every \<open>x\<close> that is
  neither \<^verbatim>\<open>True\<close> nor \<^verbatim>\<open>False\<close>. The integer \<^verbatim>\<open>1\<close> is not a boolean, but it passes the test
  \<^verbatim>\<open>new_setting in (True,False)\<close>: the call does not fail, stores \<^verbatim>\<open>1\<close> as the flag and
  returns it.
\<close>

theorem encode_accepts_integer_one:
  "encode (PyInt 1) self = (Inr (PyInt 1), self\<lparr>priv_encode_values := PyInt 1\<rparr>)"
  by (simp add: encode_def py_in_def)

subsection \<open>The empty string and the trailing separator\<close>

lemma split_on_not_Nil: "split_on c s \<noteq> []"
  by (induction s) (auto split: list.splits)

lemma split_on_snoc: "split_on c (s @ [c]) = split_on c s @ [[]]"
  using split_on_not_Nil by (induction s) (auto split: list.splits)

lemma store_item_Nil: "store_item [] self = self"
  by (simp add: store_item_def)

lemma GFFAttributes_init_Nil:
  "keys (GFFAttributes_init []) = []"
  "nokeys (GFFAttributes_init []) = []"
  "priv_dict (GFFAttributes_init []) = Map.empty"
  by (simp_all add: GFFAttributes_init_def keys_def nokeys_def GFFAttributes_empty_def)

lemma GFFAttributes_init_trailing:
  "priv_keys (GFFAttributes_init (s @ '';'')) = priv_keys (GFFAttributes_init s)"
  "priv_dict (GFFAttributes_init (s @ '';'')) = priv_dict (GFFAttributes_init s)"
  "nokeys (GFFAttributes_init (s @ '';'')) = nokeys (GFFAttributes_init s)"
  "priv_trailing_semicolon (GFFAttributes_init (s @ '';''))"
proof -
  have f: "fold store_item (split_on (CHR '';'') (s @ '';'')) a
           = fold store_item (split_on (CHR '';'') s) a" for a
    by (simp add: split_on_snoc store_item_Nil)
  have e: "fold store_item (split_on (CHR '';'') []) a = a" for a
    by (simp add: store_item_Nil)
  show "priv_keys (GFFAttributes_init (s @ '';'')) = priv_keys (GFFAttributes_init s)"
    using e by (simp add: GFFAttributes_init_def f del: split_on.simps)
  show "priv_dict (GFFAttributes_init (s @ '';'')) = priv_dict (GFFAttributes_init s)"
    using e by (simp add: GFFAttributes_init_def f del: split_on.simps)
  show "nokeys (GFFAttributes_init (s @ '';'')) = nokeys (GFFAttributes_init s)"
    using e by (simp add: GFFAttributes_init_def f nokeys_def del: split_on.simps)
  show "priv_trailing_semicolon (GFFAttributes_init (s @ '';''))"
    by (simp add: GFFAttributes_init_def endswith_def)
qed

text \<open>
  Claim C6. The empty string gives no tokens, and a trailing \<^verbatim>\<open>;\<close> sets the flag and adds
  no bare token (the lemmas above). Serialization is to emit the trailing \<^verbatim>\<open>;\<close> again for
  every string that ends in one. For the string \<^verbatim>\<open>;\<close> the flag is set, and
  \<^verbatim>\<open>__repr__\<close> joins the single empty item that stands for the separator: the result is
  the empty string, without the \<^verbatim>\<open>;\<close>.
\<close>

theorem lone_semicolon_not_reemitted:
  "priv_trailing_semicolon (GFFAttributes_init '';'')
   \<and> nokeys (GFFAttributes_init '';'') = []
   \<and> GFFAttributes_repr (GFFAttributes_init '';'') = Inr []"
  by (intro conjI)
    (simp_all add: GFFAttributes_repr_def GFFAttributes_init_def store_item_def endswith_def
      keys_def nokeys_def GFFAttributes_empty_def)

subsection \<open>What parsing stores\<close>

lemma take_length_takeWhile: "take (length (takeWhile P xs)) xs = takeWhile P xs"
  by (induction xs) auto

lemma key_value_spec:
  "key_value seg = (if CHR ''='' \<in> set seg then spec_key seg else [], 
     strip (if CHR ''='' \<in> set seg then tl (dropWhile (\<lambda>c. c \<noteq> CHR ''='') seg) else seg))"
  by (simp add: key_value_def str_index_def spec_key_def drop_Suc tl_drop dropWhile_eq_drop take_length_takeWhile)

lemma store_item_spec:
  "store_item seg self =
     (if seg = [] then self
      else if spec_keyed seg then setitem (spec_key seg) (spec_value seg) self
      else self\<lparr>priv_nokeys := priv_nokeys self @ [spec_value seg]\<rparr>)"
  by (auto simp add: store_item_def key_value_spec spec_keyed_def spec_value_def spec_key_def Let_def strip_def)


lemma spec_keyed_not_Nil: "spec_keyed seg \<Longrightarrow> seg \<noteq> []"
  by (auto simp: spec_keyed_def)

lemma store_item_keys:
  "priv_keys (store_item seg a) =
     (if spec_keyed seg \<and> spec_key seg \<notin> set (priv_keys a) then priv_keys a @ [spec_key seg]
      else priv_keys a)"
  by (auto simp: store_item_spec priv_keys_setitem dest: spec_keyed_not_Nil)

lemma store_item_dict:
  "priv_dict (store_item seg a) =
     (if spec_keyed seg then (priv_dict a)(spec_key seg \<mapsto> spec_value seg) else priv_dict a)"
  by (auto simp: store_item_spec priv_dict_setitem dest: spec_keyed_not_Nil)

lemma store_item_nokeys:
  "priv_nokeys (store_item seg a) =
     (if seg \<noteq> [] \<and> \<not> spec_keyed seg then priv_nokeys a @ [spec_value seg] else priv_nokeys a)"
  by (auto simp: store_item_spec setitem_def Let_def dest: spec_keyed_not_Nil)

lemma fold_store_keys:
  "priv_keys (fold store_item segs GFFAttributes_empty)
     = first_seen (map spec_key (filter spec_keyed segs))"
proof (induction segs rule: rev_induct)
  case Nil
  show ?case by (simp add: GFFAttributes_empty_def first_seen_def)
next
  case (snoc seg segs)
  have "set (priv_keys (fold store_item segs GFFAttributes_empty))
          = set (map spec_key (filter spec_keyed segs))"
    by (simp only: snoc.IH set_first_seen)
  then show ?case
    by (simp add: store_item_keys snoc.IH first_seen_snoc)
qed

lemma fold_store_nokeys:
  "priv_nokeys (fold store_item segs a)
     = priv_nokeys a @ map spec_value (filter (\<lambda>seg. seg \<noteq> [] \<and> \<not> spec_keyed seg) segs)"
  by (induction segs arbitrary: a) (simp_all add: store_item_nokeys)

lemma fold_store_dict:
  "priv_dict (fold store_item segs GFFAttributes_empty)
     = map_of (rev (map (\<lambda>seg. (spec_key seg, spec_value seg)) (filter spec_keyed segs)))"
proof (induction segs rule: rev_induct)
  case Nil
  show ?case by (simp add: GFFAttributes_empty_def)
next
  case (snoc seg segs)
  then show ?case by (auto simp add: store_item_dict fun_eq_iff)
qed

lemma map_of_rev_last:
  "k \<in> fst ` set kvs \<Longrightarrow>
   map_of (rev kvs) k = Some (snd (last (filter (\<lambda>p. fst p = k) kvs)))"
proof (induction kvs rule: rev_induct)
  case Nil
  then show ?case by simp
next
  case (snoc p kvs)
  then show ?case by (cases p) auto
qed


text \<open>
  Claim C5, amended. Parsing splits the string on \<^verbatim>\<open>;\<close> and skips the empty segments.
  A segment with a \<^verbatim>\<open>=\<close> whose stripped text before the first \<^verbatim>\<open>=\<close> is not empty is
  keyed: the keys are listed in the order of their first occurrence, and each key reads
  back the stripped, percent-decoded text after the first \<^verbatim>\<open>=\<close> of the last segment with
  that key. Every other non-empty segment, one without \<^verbatim>\<open>=\<close> as well as one with nothing
  but whitespace before its first \<^verbatim>\<open>=\<close>, adds a bare token, in order: the stripped,
  decoded segment, or the stripped, decoded text after the first \<^verbatim>\<open>=\<close>.
\<close>

theorem GFFAttributes_init_tokens:
  fixes s :: string
  defines "segs \<equiv> filter (\<lambda>seg. seg \<noteq> []) (split_on (CHR '';'') s)"
  shows "keys (GFFAttributes_init s) = first_seen (map spec_key (filter spec_keyed segs))
    \<and> nokeys (GFFAttributes_init s) = map spec_value (filter (\<lambda>seg. \<not> spec_keyed seg) segs)
    \<and> (\<forall>k \<in> set (keys (GFFAttributes_init s)).
          getitem (GFFAttributes_init s) k
            = Inr (spec_value (last (filter (\<lambda>seg. spec_keyed seg \<and> spec_key seg = k) segs))))"
proof -
  let ?all = "split_on (CHR '';'') s"
  let ?a = "fold store_item ?all GFFAttributes_empty"
  have keyed: "filter spec_keyed segs = filter spec_keyed ?all"
    by (auto simp: segs_def intro!: filter_cong dest: spec_keyed_not_Nil)
  have bare: "filter (\<lambda>seg. \<not> spec_keyed seg) segs
                = filter (\<lambda>seg. seg \<noteq> [] \<and> \<not> spec_keyed seg) ?all"
    by (auto simp: segs_def intro!: filter_cong)
  have same: "priv_keys (GFFAttributes_init s) = priv_keys ?a
      \<and> priv_dict (GFFAttributes_init s) = priv_dict ?a
      \<and> priv_nokeys (GFFAttributes_init s) = priv_nokeys ?a"
    by (cases s) (simp_all add: GFFAttributes_init_def store_item_Nil)
  have k: "keys (GFFAttributes_init s) = first_seen (map spec_key (filter spec_keyed segs))"
    by (simp add: keys_def same fold_store_keys keyed)
  have n: "nokeys (GFFAttributes_init s) = map spec_value (filter (\<lambda>seg. \<not> spec_keyed seg) segs)"
    by (simp add: nokeys_def same fold_store_nokeys bare GFFAttributes_empty_def)
  have v: "getitem (GFFAttributes_init s) k
            = Inr (spec_value (last (filter (\<lambda>seg. spec_keyed seg \<and> spec_key seg = k) segs)))"
    if "k \<in> set (keys (GFFAttributes_init s))" for k
  proof -
    let ?kvs = "map (\<lambda>seg. (spec_key seg, spec_value seg)) (filter spec_keyed segs)"
    from that have "k \<in> fst ` set ?kvs"
      by (simp add: k set_first_seen image_image)
    then have "map_of (rev ?kvs) k = Some (snd (last (filter (\<lambda>p. fst p = k) ?kvs)))"
      by (rule map_of_rev_last)
    moreover have "filter (\<lambda>p. fst p = k) ?kvs
        = map (\<lambda>seg. (spec_key seg, spec_value seg))
            (filter (\<lambda>seg. spec_keyed seg \<and> spec_key seg = k) segs)"
      by (simp add: filter_map o_def conj_commute)
    moreover have "filter (\<lambda>seg. spec_keyed seg \<and> spec_key seg = k) segs \<noteq> []"
      using \<open>k \<in> fst ` set ?kvs\<close> by (auto simp: filter_empty_conv)
    ultimately have "priv_dict (GFFAttributes_init s) k
        = Some (spec_value (last (filter (\<lambda>seg. spec_keyed seg \<and> spec_key seg = k) segs)))"
      by (simp add: same fold_store_dict keyed last_map)
    with that show ?thesis
      by (simp add: getitem_def keys_def)
  qed
  from k n v show ?thesis by blast
qed

theorem GFFAttributes_init_tokens_witness:
  "keys (GFFAttributes_init ''a=1;x;b=2;a=3'') = [''a'', ''b'']
   \<and> nokeys (GFFAttributes_init ''a=1;x;b=2;a=3'') = [''x'']
   \<and> ''a'' \<in> set (keys (GFFAttributes_init ''a=1;x;b=2;a=3''))
   \<and> getitem (GFFAttributes_init ''a=1;x;b=2;a=3'') ''a'' = Inr ''3''"
proof -
  have k: "keys (GFFAttributes_init ''a=1;x;b=2;a=3'') = [''a'', ''b'']"
    by (simp add: GFFAttributes_init_def keys_def store_item_def key_value_def str_index_def
        strip_def isspace_def setitem_def GFFAttributes_empty_def)
  have m: "''a'' \<in> set (keys (GFFAttributes_init ''a=1;x;b=2;a=3''))"
    by (simp add: k)
  have sp: "filter (\<lambda>seg. seg \<noteq> []) (split_on (CHR '';'') ''a=1;x;b=2;a=3'')
            = [''a=1'', ''x'', ''b=2'', ''a=3'']"
    by simp
  have sk: "spec_keyed ''a=1''" "\<not> spec_keyed ''x''" "spec_keyed ''b=2''" "spec_keyed ''a=3''"
    "spec_key ''a=1'' = ''a''" "spec_key ''b=2'' = ''b''" "spec_key ''a=3'' = ''a''"
    "spec_value ''a=3'' = ''3''" "spec_value ''x'' = ''x''"
    by (simp_all add: spec_keyed_def spec_key_def spec_value_def strip_def isspace_def)
  note t = GFFAttributes_init_tokens [of "''a=1;x;b=2;a=3''", unfolded sp]
  from t have n: "nokeys (GFFAttributes_init ''a=1;x;b=2;a=3'') = [''x'']"
    by (simp add: sk)
  from t m have "getitem (GFFAttributes_init ''a=1;x;b=2;a=3'') ''a''
      = Inr (spec_value (last (filter (\<lambda>seg. spec_keyed seg \<and> spec_key seg = ''a'')
            [''a=1'', ''x'', ''b=2'', ''a=3''])))"
    by blast
  then have g: "getitem (GFFAttributes_init ''a=1;x;b=2;a=3'') ''a'' = Inr ''3''"
    by (simp add: sk)
  from k n m g show ?thesis by blast
qed

text \<open>
  Claim C5 as stated fails for a segment whose first \<^verbatim>\<open>=\<close> has nothing before it: the
  segment \<^verbatim>\<open>=foo\<close> contains a \<^verbatim>\<open>=\<close>, yet the stripped text before it (the empty
  string) does not become a key; the value goes to the bare tokens.
\<close>

theorem empty_key_segment_counterexample:
  "''=foo'' \<in> set (split_on (CHR '';'') ''=foo'') \<and> CHR ''='' \<in> set ''=foo''
   \<and> strip (takeWhile (\<lambda>c. c \<noteq> CHR ''='') ''=foo'') \<notin> set (keys (GFFAttributes_init ''=foo''))
   \<and> nokeys (GFFAttributes_init ''=foo'') = [''foo'']"
  by (simp add: GFFAttributes_init_def keys_def nokeys_def store_item_def key_value_def str_index_def
        strip_def isspace_def setitem_def GFFAttributes_empty_def)

subsection \<open>Escaping on output\<close>

lemma quoter_chars:
  "quoter safe (CHR '';'') = (if CHR '';'' \<in> set safe then '';'' else ''%3B'')"
  "quoter safe (CHR ''='') = (if CHR ''='' \<in> set safe then ''='' else ''%3D'')"
  "quoter safe (CHR ''%'') = (if CHR ''%'' \<in> set safe then ''%'' else ''%25'')"
  "quoter safe (CHR '','') = (if CHR '','' \<in> set safe then '','' else ''%2C'')"
  by (simp_all add: quoter_def always_safe_def hexdigit_def)

lemma keyed_items_all:
  assumes enc: "truthy (priv_encode_values self)"
      and vals: "\<And>k. k \<in> set ks \<Longrightarrow> getitem self k = Inr (val k)"
  shows "keyed_items self ks =
     Inr (map (\<lambda>k. k @ ''='' @ concat (map (quoter (if k \<in> set (priv_multivalued_attributes self)
                                   then '' ,:^*$@!+?|'' else '' :^*$@!+?|'')) (val k))) ks)"
  using vals
proof (induction ks)
  case Nil
  show ?case by simp
next
  case (Cons k ks)
  have "getitem self k = Inr (val k)"
    using Cons.prems by simp
  moreover have "keyed_items self ks =
     Inr (map (\<lambda>k. k @ ''='' @ concat (map (quoter (if k \<in> set (priv_multivalued_attributes self)
                                   then '' ,:^*$@!+?|'' else '' :^*$@!+?|'')) (val k))) ks)"
    using Cons.IH Cons.prems by simp
  ultimately show ?case
    using enc by (simp add: escape_value_def quote_def)
qed

text \<open>
  Claim C4. With encoding on, \<^verbatim>\<open>__repr__\<close> emits, for every key in key order, the key,
  \<^verbatim>\<open>=\<close>, and the value escaped character by character, then the bare tokens and the
  trailing separator, joined by \<^verbatim>\<open>;\<close>. In a value, space and \<^verbatim>\<open>:^*$@!+?|\<close> stay as
  they are, as do letters, digits and \<^verbatim>\<open>_.-\<close>; the comma stays for the five multivalued
  keys and becomes \<^verbatim>\<open>%2C\<close> for every other key; \<^verbatim>\<open>;\<close>, \<^verbatim>\<open>=\<close> and \<^verbatim>\<open>%\<close> become
  \<^verbatim>\<open>%3B\<close>, \<^verbatim>\<open>%3D\<close> and \<^verbatim>\<open>%25\<close>; and every remaining character becomes \<^verbatim>\<open>%\<close> and its
  two hexadecimal digits. The object is any one whose listed keys all have a value.
\<close>

theorem escape_alphabet:
  assumes mv: "priv_multivalued_attributes self
                 = [''Parent'', ''Alias'', ''Note'', ''Dbxref'', ''Ontology_term'']"
      and enc: "truthy (priv_encode_values self)"
      and vals: "\<forall>k \<in> set (keys self). getitem self k = Inr (val k)"
  shows "\<exists>esc.
       GFFAttributes_repr self =
         Inr (join '';'' (map (\<lambda>k. k @ ''='' @ concat (map (esc k) (val k))) (keys self)
                @ priv_nokeys self @ (if priv_trailing_semicolon self then [[]] else [])))
     \<and> (\<forall>k. \<forall>c \<in> set '' :^*$@!+?|''. esc k c = [c])
     \<and> (\<forall>k. \<forall>c \<in> set always_safe. esc k c = [c])
     \<and> (\<forall>k. esc k (CHR '','') =
           (if k \<in> set [''Parent'', ''Alias'', ''Note'', ''Dbxref'', ''Ontology_term'']
            then '','' else ''%2C''))
     \<and> (\<forall>k. esc k (CHR '';'') = ''%3B'' \<and> esc k (CHR ''='') = ''%3D''
            \<and> esc k (CHR ''%'') = ''%25'')
     \<and> (\<forall>k c. c \<notin> set '' :^*$@!+?|'' \<and> c \<notin> set always_safe \<and> c \<noteq> CHR '','' \<longrightarrow>
            esc k c = [CHR ''%'', hexdigit (of_char c div 16), hexdigit (of_char c mod 16)])"
proof -
  let ?esc = "\<lambda>k. quoter (if k \<in> set (priv_multivalued_attributes self)
                            then '' ,:^*$@!+?|'' else '' :^*$@!+?|'')"
  have items: "keyed_items self (keys self) =
      Inr (map (\<lambda>k. k @ ''='' @ concat (map (?esc k) (val k))) (keys self))"
    using vals by (intro keyed_items_all [OF enc]) simp
  have r: "GFFAttributes_repr self =
         Inr (join '';'' (map (\<lambda>k. k @ ''='' @ concat (map (?esc k) (val k))) (keys self)
                @ priv_nokeys self @ (if priv_trailing_semicolon self then [[]] else [])))"
    unfolding GFFAttributes_repr_def items by simp
  have a: "\<forall>k. \<forall>c \<in> set '' :^*$@!+?|''. ?esc k c = [c]"
    by (simp add: quoter_def)
  have b: "\<forall>k. \<forall>c \<in> set always_safe. ?esc k c = [c]"
    by (simp add: quoter_def)
  have c: "\<forall>k. ?esc k (CHR '','') =
           (if k \<in> set [''Parent'', ''Alias'', ''Note'', ''Dbxref'', ''Ontology_term'']
            then '','' else ''%2C'')"
    unfolding mv by (simp add: quoter_chars)
  have d: "\<forall>k. ?esc k (CHR '';'') = ''%3B'' \<and> ?esc k (CHR ''='') = ''%3D''
            \<and> ?esc k (CHR ''%'') = ''%25''"
    by (simp add: quoter_chars)
  have e: "\<forall>k c. c \<notin> set '' :^*$@!+?|'' \<and> c \<notin> set always_safe \<and> c \<noteq> CHR '','' \<longrightarrow>
            ?esc k c = [CHR ''%'', hexdigit (of_char c div 16), hexdigit (of_char c mod 16)]"
    by (simp add: quoter_def)
  from r a b c d e show ?thesis
    by (intro exI [of _ ?esc] conjI)
qed


theorem escape_alphabet_witness:
  "priv_multivalued_attributes (GFFAttributes_init ''a=x;b=y,z;Note=p,q;t;'')
     = [''Parent'', ''Alias'', ''Note'', ''Dbxref'', ''Ontology_term'']
   \<and> truthy (priv_encode_values (GFFAttributes_init ''a=x;b=y,z;Note=p,q;t;''))
   \<and> keys (GFFAttributes_init ''a=x;b=y,z;Note=p,q;t;'') = [''a'', ''b'', ''Note'']
   \<and> getitem (GFFAttributes_init ''a=x;b=y,z;Note=p,q;t;'') ''a'' = Inr ''x''
   \<and> getitem (GFFAttributes_init ''a=x;b=y,z;Note=p,q;t;'') ''b'' = Inr ''y,z''
   \<and> getitem (GFFAttributes_init ''a=x;b=y,z;Note=p,q;t;'') ''Note'' = Inr ''p,q''
   \<and> GFFAttributes_repr (GFFAttributes_init ''a=x;b=y,z;Note=p,q;t;'')
       = Inr ''a=x;b=y%2Cz;Note=p,q;t;''"
proof -
  define self where "self = GFFAttributes_init ''a=x;b=y,z;Note=p,q;t;''"
  define val where "val = (\<lambda>k. if k = ''a'' then ''x'' else if k = ''b'' then ''y,z'' else ''p,q'')"
  have fields: "priv_keys self = [''a'', ''b'', ''Note'']"
    "priv_dict self ''a'' = Some ''x''" "priv_dict self ''b'' = Some ''y,z''"
    "priv_dict self ''Note'' = Some ''p,q''"
    "priv_nokeys self = [''t'']" "priv_trailing_semicolon self"
    by (simp_all add: self_def GFFAttributes_init_def store_item_def key_value_def str_index_def
        strip_def isspace_def setitem_def endswith_def GFFAttributes_empty_def)
  have mv: "priv_multivalued_attributes self
     = [''Parent'', ''Alias'', ''Note'', ''Dbxref'', ''Ontology_term'']"
    by (simp add: self_def GFFAttributes_init_def store_item_def key_value_def str_index_def
        strip_def isspace_def setitem_def GFFAttributes_empty_def)
  have enc: "truthy (priv_encode_values self)"
    by (simp add: self_def GFFAttributes_init_def store_item_def key_value_def str_index_def
        strip_def isspace_def setitem_def GFFAttributes_empty_def)
  have vals: "\<forall>k \<in> set (keys self). getitem self k = Inr (val k)"
    by (simp add: keys_def getitem_def fields val_def)
  from escape_alphabet [OF mv enc vals] obtain esc where
      r: "GFFAttributes_repr self =
         Inr (join '';'' (map (\<lambda>k. k @ ''='' @ concat (map (esc k) (val k))) (keys self)
                @ priv_nokeys self @ (if priv_trailing_semicolon self then [[]] else [])))"
    and safe: "\<forall>k. \<forall>c \<in> set always_safe. esc k c = [c]"
    and comma: "\<forall>k. esc k (CHR '','') =
           (if k \<in> set [''Parent'', ''Alias'', ''Note'', ''Dbxref'', ''Ontology_term'']
            then '','' else ''%2C'')"
    by blast
  have letters: "esc k (CHR ''x'') = ''x''" "esc k (CHR ''y'') = ''y''" "esc k (CHR ''z'') = ''z''"
    "esc k (CHR ''p'') = ''p''" "esc k (CHR ''q'') = ''q''" for k
    using safe by (simp_all add: always_safe_def)
  have commas: "esc ''b'' (CHR '','') = ''%2C''" "esc ''Note'' (CHR '','') = '',''"
    using comma by simp_all
  have "GFFAttributes_repr self = Inr ''a=x;b=y%2Cz;Note=p,q;t;''"
    unfolding r by (simp add: keys_def fields val_def letters commas)
  moreover have "keys self = [''a'', ''b'', ''Note'']" "getitem self ''a'' = Inr ''x''"
    "getitem self ''b'' = Inr ''y,z''" "getitem self ''Note'' = Inr ''p,q''"
    by (simp_all add: keys_def getitem_def fields)
  ultimately show ?thesis
    using mv enc unfolding self_def by blast
qed

section \<open>Properties of GFFID\<close>

lemma split_on_no_sep: "c \<notin> set a \<Longrightarrow> split_on c a = [a]"
  by (induction a) auto

lemma split_on_append_sep: "c \<notin> set a \<Longrightarrow> split_on c (a @ c # rest) = a # split_on c rest"
  by (induction a) auto

lemma GFFID_init_one:
  "CHR '':'' \<notin> set a \<Longrightarrow> GFFID_init a = Inr \<lparr>code = [], name = a, index = 0\<rparr>"
  by (simp add: GFFID_init_def split_on_no_sep)

lemma GFFID_init_two:
  "CHR '':'' \<notin> set a \<Longrightarrow> CHR '':'' \<notin> set b \<Longrightarrow>
   GFFID_init (a @ '':'' @ b) = Inr \<lparr>code = a, name = b, index = 0\<rparr>"
  by (simp add: GFFID_init_def split_on_append_sep split_on_no_sep)

lemma GFFID_init_three:
  "CHR '':'' \<notin> set a \<Longrightarrow> CHR '':'' \<notin> set b \<Longrightarrow> CHR '':'' \<notin> set c \<Longrightarrow>
   GFFID_init (a @ '':'' @ b @ '':'' @ c) =
     (case py_int c of None \<Rightarrow> Inl ValueError
      | Some i \<Rightarrow> Inr \<lparr>code = a, name = b, index = i\<rparr>)"
  by (simp add: GFFID_init_def split_on_append_sep split_on_no_sep)

lemma GFFID_init_more:
  "CHR '':'' \<notin> set a \<Longrightarrow> CHR '':'' \<notin> set b \<Longrightarrow> CHR '':'' \<notin> set c \<Longrightarrow>
   GFFID_init (a @ '':'' @ b @ '':'' @ c @ '':'' @ rest) =
     (case py_int c of None \<Rightarrow> Inl ValueError
      | Some i \<Rightarrow> Inr \<lparr>code = a, name = b, index = i\<rparr>)"
  by (simp add: GFFID_init_def split_on_append_sep)

lemma isdigit_char_of: "(d::nat) < 10 \<Longrightarrow> isdigit (char_of (48 + d))"
  by (simp add: isdigit_def)

lemma str_of_nat_digits: "list_all isdigit (str_of_nat n) \<and> str_of_nat n \<noteq> []"
proof (induction n rule: str_of_nat.induct)
  case (1 n)
  show ?case
  proof (cases "n < 10")
    case True
    then show ?thesis by (subst (1 2) str_of_nat.simps) (simp add: isdigit_char_of)
  next
    case False
    then have "list_all isdigit (str_of_nat (n div 10))" using 1 by simp
    then show ?thesis using False
      by (subst (1 2) str_of_nat.simps) (simp add: isdigit_char_of)
  qed
qed

lemma foldl_str_of_nat:
  "foldl (\<lambda>n c. 10 * n + (of_char c - 48)) 0 (str_of_nat n) = n"
proof (induction n rule: str_of_nat.induct)
  case (1 n)
  show ?case
  proof (cases "n < 10")
    case True
    then show ?thesis by (subst str_of_nat.simps) simp
  next
    case False
    then have "foldl (\<lambda>n c. 10 * n + (of_char c - 48)) 0 (str_of_nat (n div 10)) = n div 10"
      using 1 by simp
    then show ?thesis using False
      by (subst str_of_nat.simps) simp
  qed
qed

lemma digits_value_str_of_nat: "digits_value (str_of_nat n) = Some (int n)"
  using str_of_nat_digits [of n] by (simp add: digits_value_def foldl_str_of_nat)


lemma dropWhile_none: "\<forall>c \<in> set xs. \<not> P c \<Longrightarrow> dropWhile P xs = xs"
  by (cases xs) auto

lemma strip_no_space: "\<forall>c \<in> set s. \<not> isspace c \<Longrightarrow> strip s = s"
  by (simp add: strip_def dropWhile_none)

lemma isdigit_facts:
  "isdigit c \<Longrightarrow> \<not> isspace c \<and> c \<noteq> CHR ''-'' \<and> c \<noteq> CHR ''+'' \<and> c \<noteq> CHR '':''"
  by (auto simp: isdigit_def isspace_def)

lemma py_int_str_of_nat: "py_int (str_of_nat n) = Some (int n)"
proof -
  have d: "list_all isdigit (str_of_nat n)" and ne: "str_of_nat n \<noteq> []"
    using str_of_nat_digits by auto
  from d have "strip (str_of_nat n) = str_of_nat n"
    by (intro strip_no_space) (auto simp: list_all_iff isdigit_facts)
  moreover obtain c ds where cd: "str_of_nat n = c # ds"
    using ne by (cases "str_of_nat n") auto
  moreover have "c \<noteq> CHR ''-''" "c \<noteq> CHR ''+''"
    using d cd by (auto simp: isdigit_facts)
  ultimately show ?thesis
    using digits_value_str_of_nat [of n] by (simp add: py_int_def)
qed

lemma py_int_minus_str_of_nat: "py_int (CHR ''-'' # str_of_nat n) = Some (- int n)"
proof -
  have d: "list_all isdigit (str_of_nat n)"
    using str_of_nat_digits by auto
  moreover have "\<not> isspace (CHR ''-'')"
    by (simp add: isspace_def)
  ultimately have "strip (CHR ''-'' # str_of_nat n) = CHR ''-'' # str_of_nat n"
    by (intro strip_no_space) (auto simp: list_all_iff dest: isdigit_facts)
  then show ?thesis
    by (simp add: py_int_def digits_value_str_of_nat)
qed

lemma py_int_format_d: "py_int (format_d i) = Some i"
  by (simp add: format_d_def py_int_str_of_nat py_int_minus_str_of_nat)

lemma format_d_no_colon: "CHR '':'' \<notin> set (format_d i)"
  using str_of_nat_digits by (auto simp: format_d_def list_all_iff dest: isdigit_facts)

text \<open>
  Claim C8. With segments free of \<^verbatim>\<open>:\<close>: one segment gives an empty code, the segment as
  name and index 0; two segments give code, name and index 0; three segments give code,
  name and the integer that \<^verbatim>\<open>int\<close> reads from the third, or \<^verbatim>\<open>ValueError\<close> and no
  object when \<^verbatim>\<open>int\<close> rejects it; whatever follows a fourth \<^verbatim>\<open>:\<close> changes nothing.
  Serialization gives the name alone for an empty code and \<^verbatim>\<open>code:name:index\<close>
  otherwise, with the index in decimal, which \<^verbatim>\<open>int\<close> reads back: parsing the
  serialization returns the identifier.
\<close>

theorem GFFID_parse_and_serialize:
  assumes a: "CHR '':'' \<notin> set a" and b: "CHR '':'' \<notin> set b" and c: "CHR '':'' \<notin> set c"
  shows "GFFID_init a = Inr \<lparr>code = [], name = a, index = 0\<rparr>
    \<and> GFFID_init (a @ '':'' @ b) = Inr \<lparr>code = a, name = b, index = 0\<rparr>
    \<and> GFFID_init (a @ '':'' @ b @ '':'' @ c)
        = (case py_int c of None \<Rightarrow> Inl ValueError
           | Some i \<Rightarrow> Inr \<lparr>code = a, name = b, index = i\<rparr>)
    \<and> GFFID_init (a @ '':'' @ b @ '':'' @ c @ '':'' @ rest)
        = GFFID_init (a @ '':'' @ b @ '':'' @ c)
    \<and> py_int (format_d i) = Some i
    \<and> GFFID_repr \<lparr>code = [], name = b, index = i\<rparr> = b
    \<and> (a \<noteq> [] \<longrightarrow>
         GFFID_repr \<lparr>code = a, name = b, index = i\<rparr> = a @ '':'' @ b @ '':'' @ format_d i
         \<and> GFFID_init (GFFID_repr \<lparr>code = a, name = b, index = i\<rparr>)
             = Inr \<lparr>code = a, name = b, index = i\<rparr>)"
proof -
  have r: "GFFID_init (a @ '':'' @ b @ '':'' @ format_d i) = Inr \<lparr>code = a, name = b, index = i\<rparr>"
    using GFFID_init_three [OF a b format_d_no_colon, of i] by (simp add: py_int_format_d)
  show ?thesis
    using GFFID_init_one [OF a] GFFID_init_two [OF a b] GFFID_init_three [OF a b c]
      GFFID_init_more [OF a b c, of rest] r
    by (simp add: GFFID_repr_def py_int_format_d)
qed

theorem GFFID_parse_and_serialize_witness:
  "CHR '':'' \<notin> set ''CDS'' \<and> CHR '':'' \<notin> set ''XYZ123-A'' \<and> CHR '':'' \<notin> set ''2''
   \<and> GFFID_init ''CDS'' = Inr \<lparr>code = [], name = ''CDS'', index = 0\<rparr>
   \<and> GFFID_init ''CDS:XYZ123-A'' = Inr \<lparr>code = ''CDS'', name = ''XYZ123-A'', index = 0\<rparr>
   \<and> GFFID_init ''CDS:XYZ123-A:2'' = Inr \<lparr>code = ''CDS'', name = ''XYZ123-A'', index = 2\<rparr>
   \<and> GFFID_init ''CDS:XYZ123-A:2:x'' = Inr \<lparr>code = ''CDS'', name = ''XYZ123-A'', index = 2\<rparr>
   \<and> GFFID_repr \<lparr>code = ''CDS'', name = ''XYZ123-A'', index = 2\<rparr> = ''CDS:XYZ123-A:2''"
proof -
  have h: "CHR '':'' \<notin> set ''CDS''" "CHR '':'' \<notin> set ''XYZ123-A''" "CHR '':'' \<notin> set ''2''"
    by simp_all
  have p: "py_int ''2'' = Some 2"
    by (simp add: py_int_def strip_def isspace_def digits_value_def isdigit_def)
  have f: "format_d 2 = ''2''"
    by code_simp
  from GFFID_parse_and_serialize [OF h, of "''x''" 2] h p f show ?thesis
    by simp
qed

section \<open>Properties of GFFIterator\<close>

lemma no_newline:
  "c \<notin> set t \<Longrightarrow> dropWhile (\<lambda>x. x \<noteq> c) (t @ s) = dropWhile (\<lambda>x. x \<noteq> c) s
     \<and> takeWhile (\<lambda>x. x \<noteq> c) (t @ s) = t @ takeWhile (\<lambda>x. x \<noteq> c) s"
  by (induction t) auto

lemma readline_line:
  "CHR 0x0A \<notin> set t \<Longrightarrow> readline (t @ CHR 0x0A # rest) = (t @ [CHR 0x0A], rest)"
  by (simp add: readline_def no_newline)

lemma readline_last: "CHR 0x0A \<notin> set t \<Longrightarrow> readline t = (t, [])"
proof -
  assume "CHR 0x0A \<notin> set t"
  then have d: "dropWhile (\<lambda>c. c \<noteq> CHR 0x0A) t = []"
    by (induction t) auto
  show ?thesis
    unfolding readline_def d by simp
qed

lemma next_line:
  assumes "CHR 0x0A \<notin> set t"
  shows "GFFIterator_next \<lparr>priv_fp = t @ CHR 0x0A # rest, priv_close_fp = own,
            fp_closed = False, priv_lineno = n\<rparr>
     = (Inr \<lparr>dl_line = t @ [CHR 0x0A], dl_lineno = Suc n,
              dl_type = spec_line_type (t @ [CHR 0x0A])\<rparr>,
        \<lparr>priv_fp = rest, priv_close_fp = own, fp_closed = False, priv_lineno = Suc n\<rparr>)"
  by (simp add: GFFIterator_next_def readline_line [OF assms] startswith_def spec_line_type_def
      GFFDataLine_init_def Let_def numeral_2_eq_2)

lemma next_last:
  assumes "CHR 0x0A \<notin> set t" and "t \<noteq> []"
  shows "GFFIterator_next \<lparr>priv_fp = t, priv_close_fp = own,
            fp_closed = False, priv_lineno = n\<rparr>
     = (Inr \<lparr>dl_line = t, dl_lineno = Suc n, dl_type = spec_line_type t\<rparr>,
        \<lparr>priv_fp = [], priv_close_fp = own, fp_closed = False, priv_lineno = Suc n\<rparr>)"
  using assms(2)
  by (simp add: GFFIterator_next_def readline_last [OF assms(1)] startswith_def spec_line_type_def
      GFFDataLine_init_def Let_def numeral_2_eq_2)

lemma next_eof:
  "fst (GFFIterator_next \<lparr>priv_fp = [], priv_close_fp = own,
            fp_closed = False, priv_lineno = n\<rparr>) = Inl StopIteration"
  by (simp add: GFFIterator_next_def readline_def Let_def)

lemma iterate_eof:
  "iterate \<lparr>priv_fp = [], priv_close_fp = own, fp_closed = False, priv_lineno = n\<rparr> = []"
  by (subst iterate.simps) (simp add: GFFIterator_next_def readline_def Let_def)

lemma iterate_lines:
  assumes "\<forall>l \<in> set ls. \<exists>t. l = t @ [CHR 0x0A] \<and> CHR 0x0A \<notin> set t"
      and "CHR 0x0A \<notin> set tail"
  shows "iterate \<lparr>priv_fp = concat ls @ tail, priv_close_fp = own,
            fp_closed = False, priv_lineno = n\<rparr>
     = map (\<lambda>(i, l). \<lparr>dl_line = l, dl_lineno = Suc i, dl_type = spec_line_type l\<rparr>)
         (enumerate n (ls @ (if tail = [] then [] else [tail])))"
  using assms(1)
proof (induction ls arbitrary: n)
  case Nil
  show ?case
  proof (cases "tail = []")
    case True
    then show ?thesis by (simp add: iterate_eof)
  next
    case False
    then show ?thesis
      by (subst iterate.simps) (simp add: next_last [OF assms(2)] iterate_eof)
  qed
next
  case (Cons l ls)
  then obtain t where l: "l = t @ [CHR 0x0A]" and t: "CHR 0x0A \<notin> set t"
    by auto
  have ih: "iterate \<lparr>priv_fp = concat ls @ tail, priv_close_fp = own,
            fp_closed = False, priv_lineno = Suc n\<rparr>
     = map (\<lambda>(i, l). \<lparr>dl_line = l, dl_lineno = Suc i, dl_type = spec_line_type l\<rparr>)
         (enumerate (Suc n) (ls @ (if tail = [] then [] else [tail])))"
    using Cons.IH Cons.prems by simp
  show ?case
    by (subst iterate.simps) (simp add: l next_line [OF t] ih)
qed


text \<open>
  Claim C9. A file is a sequence of lines that end in a newline, and possibly a last line
  without one. The iterator yields one record for each line, in order; the record of the
  line at position \<open>i\<close> (counted from 0) carries the line, the number \<open>i + 1\<close>, and the
  type \<^verbatim>\<open>PRAGMA\<close> if the line starts with \<^verbatim>\<open>##\<close>, else \<^verbatim>\<open>COMMENT\<close> if it starts with
  \<^verbatim>\<open>#\<close>, else \<^verbatim>\<open>ANNOTATION\<close>.
\<close>

theorem iterator_classifies_and_numbers:
  assumes "\<forall>l \<in> set ls. \<exists>t. l = t @ [CHR 0x0A] \<and> CHR 0x0A \<notin> set t"
      and "CHR 0x0A \<notin> set tail"
  shows "iterate (GFFIterator_init (concat ls @ tail) own)
     = map (\<lambda>(i, l). \<lparr>dl_line = l, dl_lineno = i + 1,
                      dl_type = (if take 2 l = ''##'' then PRAGMA
                                 else if take 1 l = ''#'' then COMMENT
                                 else ANNOTATION)\<rparr>)
         (enumerate 0 (ls @ (if tail = [] then [] else [tail])))"
  using iterate_lines [OF assms, of own 0]
  by (simp add: GFFIterator_init_def spec_line_type_def)

theorem iterator_classifies_and_numbers_witness:
  "iterate (GFFIterator_init (''##gff-version 3'' @ [CHR 0x0A] @ ''#c'' @ [CHR 0x0A] @
      ''chr1'' @ [CHR 0x09] @ ''x'' @ [CHR 0x0A] @ ''#'') False)
     = [\<lparr>dl_line = ''##gff-version 3'' @ [CHR 0x0A], dl_lineno = 1, dl_type = PRAGMA\<rparr>,
        \<lparr>dl_line = ''#c'' @ [CHR 0x0A], dl_lineno = 2, dl_type = COMMENT\<rparr>,
        \<lparr>dl_line = ''chr1'' @ [CHR 0x09] @ ''x'' @ [CHR 0x0A], dl_lineno = 3, dl_type = ANNOTATION\<rparr>,
        \<lparr>dl_line = ''#'', dl_lineno = 4, dl_type = COMMENT\<rparr>]"
proof -
  let ?ls = "[''##gff-version 3'' @ [CHR 0x0A], ''#c'' @ [CHR 0x0A],
              ''chr1'' @ [CHR 0x09] @ ''x'' @ [CHR 0x0A]]"
  have h1: "\<forall>l \<in> set ?ls. \<exists>t. l = t @ [CHR 0x0A] \<and> CHR 0x0A \<notin> set t"
    by simp
  have h2: "CHR 0x0A \<notin> set ''#''"
    by simp
  from iterator_classifies_and_numbers [OF h1 h2, of False] show ?thesis
    by (simp add: enumerate_eq_zip)
qed

section \<open>Properties of GFFFile\<close>

lemma take_record_ok:
  assumes "spec_pragma_ok str_of line"
  shows "take_record str_of line self =
     Inr (self\<lparr>priv_version := (case spec_version_directive str_of line of
                                   None \<Rightarrow> priv_version self | Some v \<Rightarrow> Some v),
              data := data self @ (if dl_type line = ANNOTATION then [line] else [])\<rparr>)"
  using assms
  by (cases "dl_type line")
     (auto simp: take_record_def spec_pragma_ok_def spec_version_directive_def
           split: list.splits)

lemma take_records_ok:
  assumes "\<forall>line \<in> set recs. spec_pragma_ok str_of line"
  shows "take_records str_of recs self =
     Inr (self\<lparr>priv_version := (case List.map_filter (spec_version_directive str_of) recs of
                                   [] \<Rightarrow> priv_version self | vs \<Rightarrow> Some (last vs)),
              data := data self @ filter (\<lambda>line. dl_type line = ANNOTATION) recs\<rparr>)"
  using assms
proof (induction recs arbitrary: self)
  case Nil
  show ?case by simp
next
  case (Cons line recs)
  then have ok: "spec_pragma_ok str_of line" and rest: "\<forall>line \<in> set recs. spec_pragma_ok str_of line"
    by simp_all
  show ?case
    by (simp add: take_record_ok [OF ok] Cons.IH [OF rest] map_filter_simps
        split: option.splits list.splits)
qed


text \<open>
  Claim C2, amended. When the table is built (no pragma record lacks its first word, and no
  \<^verbatim>\<open>gff-version\<close> pragma lacks its value), its version is the value of the last
  \<^verbatim>\<open>gff-version\<close> directive of the stream, or \<^verbatim>\<open>None\<close> without one: every directive
  overwrites the version set before it. The stored lines are the annotation records, in
  order.
\<close>

theorem version_is_last_directive:
  assumes "\<forall>line \<in> set (iterate (GFFIterator_init content own)). spec_pragma_ok str_of line"
  shows "\<exists>g. GFFFile_init str_of content own format = Inr g
     \<and> priv_version g =
         (case List.map_filter (spec_version_directive str_of)
                 (iterate (GFFIterator_init content own)) of
            [] \<Rightarrow> None | vs \<Rightarrow> Some (last vs))
     \<and> data g = filter (\<lambda>line. dl_type line = ANNOTATION) (iterate (GFFIterator_init content own))
     \<and> priv_format g = format"
  unfolding GFFFile_init_def take_records_ok [OF assms]
  by (simp add: GFFFile_empty_def split: list.splits)

theorem version_is_last_directive_witness:
  "GFFFile_init dl_line
     (''##gff-version 3'' @ [CHR 0x0A] @ ''#c'' @ [CHR 0x0A] @ ''##gff-version 2'' @ [CHR 0x0A]
        @ ''chr1'' @ [CHR 0x09] @ ''x'' @ [CHR 0x0A]) False ''gff''
   = Inr \<lparr>priv_format = ''gff'', priv_version = Some ''2'',
          data = [\<lparr>dl_line = ''chr1'' @ [CHR 0x09] @ ''x'' @ [CHR 0x0A], dl_lineno = 4,
                   dl_type = ANNOTATION\<rparr>]\<rparr>"
proof -
  let ?c = "''##gff-version 3'' @ [CHR 0x0A] @ ''#c'' @ [CHR 0x0A] @ ''##gff-version 2'' @ [CHR 0x0A]
        @ ''chr1'' @ [CHR 0x09] @ ''x'' @ [CHR 0x0A]"
  have it: "iterate (GFFIterator_init ?c False) =
     [\<lparr>dl_line = ''##gff-version 3'' @ [CHR 0x0A], dl_lineno = 1, dl_type = PRAGMA\<rparr>,
      \<lparr>dl_line = ''#c'' @ [CHR 0x0A], dl_lineno = 2, dl_type = COMMENT\<rparr>,
      \<lparr>dl_line = ''##gff-version 2'' @ [CHR 0x0A], dl_lineno = 3, dl_type = PRAGMA\<rparr>,
      \<lparr>dl_line = ''chr1'' @ [CHR 0x09] @ ''x'' @ [CHR 0x0A], dl_lineno = 4, dl_type = ANNOTATION\<rparr>]"
    by code_simp
  have ok: "\<forall>line \<in> set (iterate (GFFIterator_init ?c False)). spec_pragma_ok dl_line line"
    unfolding it by code_simp
  from version_is_last_directive [OF ok, of "''gff''"] obtain g where
    g: "GFFFile_init dl_line ?c False ''gff'' = Inr g"
    and v: "priv_version g = (case List.map_filter (spec_version_directive dl_line)
                 (iterate (GFFIterator_init ?c False)) of
            [] \<Rightarrow> None | vs \<Rightarrow> Some (last vs))"
    and d: "data g = filter (\<lambda>line. dl_type line = ANNOTATION) (iterate (GFFIterator_init ?c False))"
    and f: "priv_format g = ''gff''"
    by blast
  have "(case List.map_filter (spec_version_directive dl_line)
                 (iterate (GFFIterator_init ?c False)) of
            [] \<Rightarrow> None | vs \<Rightarrow> Some (last vs)) = Some ''2''"
    by code_simp
  with v have "priv_version g = Some ''2''"
    by simp
  moreover from d have "data g = [\<lparr>dl_line = ''chr1'' @ [CHR 0x09] @ ''x'' @ [CHR 0x0A], dl_lineno = 4,
                   dl_type = ANNOTATION\<rparr>]"
    unfolding it by simp
  ultimately show ?thesis
    using g f by (cases g) simp
qed

text \<open>
  Claim C2 as stated fails: with two \<^verbatim>\<open>gff-version\<close> directives the version is the value
  of the second, not of the first.
\<close>

theorem first_version_directive_counterexample:
  "fst (GFFIterator_next (GFFIterator_init (''##gff-version 3'' @ [CHR 0x0A] @ ''##gff-version 2'' @ [CHR 0x0A]) False))
     = Inr \<lparr>dl_line = ''##gff-version 3'' @ [CHR 0x0A], dl_lineno = 1, dl_type = PRAGMA\<rparr>
   \<and> spec_version_directive dl_line
         \<lparr>dl_line = ''##gff-version 3'' @ [CHR 0x0A], dl_lineno = 1, dl_type = PRAGMA\<rparr> = Some ''3''
   \<and> GFFFile_init dl_line (''##gff-version 3'' @ [CHR 0x0A] @ ''##gff-version 2'' @ [CHR 0x0A]) False ''gff''
     = Inr \<lparr>priv_format = ''gff'', priv_version = Some ''2'', data = []\<rparr>"
  by code_simp

section \<open>Properties of the lists of a GFFAttributes object\<close>

lemma list_get_append_same:
  "lists h r \<noteq> None \<Longrightarrow> list_get r (list_append r x h) = list_get r h @ [x]"
  by (auto simp: list_get_def list_append_def)

lemma list_get_append_other:
  "r' \<noteq> r \<Longrightarrow> list_get r' (list_append r x h) = list_get r' h"
  by (auto simp: list_get_def list_append_def split: option.splits)

lemma list_get_clear_other:
  "r' \<noteq> r \<Longrightarrow> list_get r' (list_clear r h) = list_get r' h"
  by (auto simp: list_get_def list_clear_def split: option.splits)

lemma list_get_clear:
  "lists h r \<noteq> None \<Longrightarrow> list_get r (list_clear r h) = []"
  by (auto simp: list_get_def list_clear_def)

lemma list_get_new_other:
  "r < next_ref h \<Longrightarrow> list_get r (snd (new_list xs h)) = list_get r h"
  by (simp add: list_get_def new_list_def)

lemma new_list_facts:
  "fst (new_list xs h) = next_ref h"
  "list_get (next_ref h) (snd (new_list xs h)) = xs"
  "lists (snd (new_list xs h)) (next_ref h) \<noteq> None"
  by (simp_all add: list_get_def new_list_def)

text \<open>
  Claim C10. For an object whose two references name different lists of the store:
  \<^verbatim>\<open>nokeys()\<close> returns the reference of the object's own list of bare tokens, so after
  appending to the returned list the object's bare tokens, and with them what \<^verbatim>\<open>__repr__\<close>
  serializes, have the new token at the end, and after clearing it they are empty;
  \<^verbatim>\<open>keys()\<close> returns a new list with the keys, different from both lists of the object, and
  neither creating it nor appending to it nor clearing it changes the object.
\<close>

theorem nokeys_live_keys_copy:
  assumes "object_in_store h obj"
  shows "list_get (nokeys_method obj) (list_append (nokeys_method obj) x h)
           = list_get (nokeys_method obj) h @ [x]
    \<and> object_value (list_append (nokeys_method obj) x h) obj
           = (object_value h obj)\<lparr>priv_nokeys := nokeys (object_value h obj) @ [x]\<rparr>
    \<and> repr_method obj (list_append (nokeys_method obj) x h)
           = GFFAttributes_repr
               ((object_value h obj)\<lparr>priv_nokeys := nokeys (object_value h obj) @ [x]\<rparr>)
    \<and> list_get (nokeys_method obj) (list_clear (nokeys_method obj) h) = []
    \<and> object_value (list_clear (nokeys_method obj) h) obj
           = (object_value h obj)\<lparr>priv_nokeys := []\<rparr>
    \<and> repr_method obj (list_clear (nokeys_method obj) h)
           = GFFAttributes_repr ((object_value h obj)\<lparr>priv_nokeys := []\<rparr>)
    \<and> (case keys_method obj h of
          (r, h1) \<Rightarrow>
            r \<noteq> keys_at obj \<and> r \<noteq> nokeys_at obj
            \<and> list_get r h1 = keys (object_value h obj)
            \<and> object_value h1 obj = object_value h obj
            \<and> list_get r (list_append r x h1) = keys (object_value h obj) @ [x]
            \<and> object_value (list_append r x h1) obj = object_value h obj
            \<and> list_get r (list_clear r h1) = []
            \<and> object_value (list_clear r h1) obj = object_value h obj)"
proof -
  from assms have ne: "keys_at obj \<noteq> nokeys_at obj"
    and kb: "keys_at obj < next_ref h" and nb: "nokeys_at obj < next_ref h"
    and ka: "lists h (keys_at obj) \<noteq> None" and na: "lists h (nokeys_at obj) \<noteq> None"
    by (simp_all add: object_in_store_def)
  have a1: "list_get (nokeys_at obj) (list_append (nokeys_at obj) x h)
              = list_get (nokeys_at obj) h @ [x]"
    by (rule list_get_append_same [OF na])
  have a2: "list_get (keys_at obj) (list_append (nokeys_at obj) x h) = list_get (keys_at obj) h"
    by (rule list_get_append_other [OF ne])
  have c1: "list_get (nokeys_at obj) (list_clear (nokeys_at obj) h) = []"
    by (rule list_get_clear [OF na])
  have c2: "list_get (keys_at obj) (list_clear (nokeys_at obj) h) = list_get (keys_at obj) h"
    by (rule list_get_clear_other [OF ne])
  define r where "r = fst (keys_method obj h)"
  define h1 where "h1 = snd (keys_method obj h)"
  have r: "r = next_ref h"
    by (simp add: r_def keys_method_def new_list_facts)
  have rk: "keys_at obj \<noteq> r" and rn: "nokeys_at obj \<noteq> r"
    using kb nb r by simp_all
  have g: "list_get r h1 = list_get (keys_at obj) h"
    unfolding r h1_def keys_method_def by (rule new_list_facts)
  have al: "lists h1 r \<noteq> None"
    unfolding r h1_def keys_method_def by (rule new_list_facts)
  have k1: "list_get (keys_at obj) h1 = list_get (keys_at obj) h"
    unfolding h1_def keys_method_def by (rule list_get_new_other [OF kb])
  have n1: "list_get (nokeys_at obj) h1 = list_get (nokeys_at obj) h"
    unfolding h1_def keys_method_def by (rule list_get_new_other [OF nb])
  have first: "list_get (nokeys_method obj) (list_append (nokeys_method obj) x h)
           = list_get (nokeys_method obj) h @ [x]"
    by (simp add: nokeys_method_def a1)
  have second: "object_value (list_append (nokeys_method obj) x h) obj
           = (object_value h obj)\<lparr>priv_nokeys := nokeys (object_value h obj) @ [x]\<rparr>"
    by (simp add: nokeys_method_def object_value_def nokeys_def a1 a2)
  have third: "list_get (nokeys_method obj) (list_clear (nokeys_method obj) h) = []"
    by (simp add: nokeys_method_def c1)
  have fourth: "object_value (list_clear (nokeys_method obj) h) obj
           = (object_value h obj)\<lparr>priv_nokeys := []\<rparr>"
    by (simp add: nokeys_method_def object_value_def c1 c2)
  have copy: "r \<noteq> keys_at obj \<and> r \<noteq> nokeys_at obj
            \<and> list_get r h1 = keys (object_value h obj)
            \<and> object_value h1 obj = object_value h obj
            \<and> list_get r (list_append r x h1) = keys (object_value h obj) @ [x]
            \<and> object_value (list_append r x h1) obj = object_value h obj
            \<and> list_get r (list_clear r h1) = []
            \<and> object_value (list_clear r h1) obj = object_value h obj"
    using rk rn
    by (simp add: object_value_def keys_def g k1 n1 list_get_append_same [OF al]
        list_get_clear [OF al] list_get_append_other list_get_clear_other)
  have "keys_method obj h = (r, h1)"
    by (simp add: r_def h1_def)
  with first second third fourth copy show ?thesis
    by (simp add: repr_method_def)
qed


lemma GFFAttributes_new_object:
  assumes "GFFAttributes_new s h = (obj, h')"
  shows "object_in_store h' obj" and "object_value h' obj = GFFAttributes_init s"
  using assms
  by (auto simp: GFFAttributes_new_def new_list_def object_in_store_def object_value_def
      list_get_def Let_def)

theorem nokeys_live_keys_copy_witness:
  "(case GFFAttributes_new ''ID=x;Shift=2;58-59;95-99'' \<lparr>lists = Map.empty, next_ref = 0\<rparr> of
      (obj, h) \<Rightarrow>
        object_in_store h obj
        \<and> list_get (nokeys_method obj) h = [''58-59'', ''95-99'']
        \<and> list_get (nokeys_method obj) (list_append (nokeys_method obj) ''Test'' h)
            = [''58-59'', ''95-99'', ''Test'']
        \<and> repr_method obj (list_append (nokeys_method obj) ''Test'' h)
            = Inr ''ID=x;Shift=2;58-59;95-99;Test''
        \<and> list_get (nokeys_method obj) (list_clear (nokeys_method obj) h) = []
        \<and> object_value
             (list_append (fst (keys_method obj h)) ''Test'' (snd (keys_method obj h))) obj
            = object_value h obj)"
proof -
  obtain obj h where new:
    "GFFAttributes_new ''ID=x;Shift=2;58-59;95-99'' \<lparr>lists = Map.empty, next_ref = 0\<rparr> = (obj, h)"
    by (cases "GFFAttributes_new ''ID=x;Shift=2;58-59;95-99'' \<lparr>lists = Map.empty, next_ref = 0\<rparr>")
  have st: "object_in_store h obj"
    by (rule GFFAttributes_new_object [OF new])
  have v: "object_value h obj = GFFAttributes_init ''ID=x;Shift=2;58-59;95-99''"
    by (rule GFFAttributes_new_object [OF new])
  have fields: "priv_keys (GFFAttributes_init ''ID=x;Shift=2;58-59;95-99'') = [''ID'', ''Shift'']"
    "priv_dict (GFFAttributes_init ''ID=x;Shift=2;58-59;95-99'') ''ID'' = Some ''x''"
    "priv_dict (GFFAttributes_init ''ID=x;Shift=2;58-59;95-99'') ''Shift'' = Some ''2''"
    "priv_nokeys (GFFAttributes_init ''ID=x;Shift=2;58-59;95-99'') = [''58-59'', ''95-99'']"
    "\<not> priv_trailing_semicolon (GFFAttributes_init ''ID=x;Shift=2;58-59;95-99'')"
    "priv_encode_values (GFFAttributes_init ''ID=x;Shift=2;58-59;95-99'') = PyBool True"
    "priv_multivalued_attributes (GFFAttributes_init ''ID=x;Shift=2;58-59;95-99'')
       = [''Parent'', ''Alias'', ''Note'', ''Dbxref'', ''Ontology_term'']"
    by (simp_all add: GFFAttributes_init_def store_item_def key_value_def str_index_def
        strip_def isspace_def setitem_def endswith_def GFFAttributes_empty_def)
  have "priv_nokeys (object_value h obj) = [''58-59'', ''95-99'']"
    unfolding v by (rule fields)
  then have n0: "list_get (nokeys_method obj) h = [''58-59'', ''95-99'']"
    by (simp add: object_value_def nokeys_method_def)
  note t = nokeys_live_keys_copy [OF st, of "''Test''"]
  from t have n1: "list_get (nokeys_method obj) (list_append (nokeys_method obj) ''Test'' h)
            = [''58-59'', ''95-99'', ''Test'']"
    by (simp add: n0)
  from t have "repr_method obj (list_append (nokeys_method obj) ''Test'' h)
      = GFFAttributes_repr ((GFFAttributes_init ''ID=x;Shift=2;58-59;95-99'')
          \<lparr>priv_nokeys := [''58-59'', ''95-99'', ''Test'']\<rparr>)"
    by (simp add: v nokeys_def fields(4))
  also have "\<dots> = Inr ''ID=x;Shift=2;58-59;95-99;Test''"
    by (simp add: GFFAttributes_repr_def keys_def getitem_def escape_value_def quote_def
        quoter_def always_safe_def fields)
  finally have r1: "repr_method obj (list_append (nokeys_method obj) ''Test'' h)
      = Inr ''ID=x;Shift=2;58-59;95-99;Test''" .
  from t have c: "list_get (nokeys_method obj) (list_clear (nokeys_method obj) h) = []"
    by blast
  from t have k: "object_value
             (list_append (fst (keys_method obj h)) ''Test'' (snd (keys_method obj h))) obj
            = object_value h obj"
    by (simp add: case_prod_beta)
  from st n0 n1 r1 c k show ?thesis
    by (simp add: new)
qed

section \<open>The round trip of an attribute string\<close>

lemma unquote_other: "c \<noteq> CHR ''%'' \<Longrightarrow> unquote (c # rest) = c # unquote rest"
proof (cases rest)
  case Nil
  then show ?thesis by simp
next
  case (Cons a r)
  then show "c \<noteq> CHR ''%'' \<Longrightarrow> ?thesis" by (cases r) simp_all
qed

lemma unquote_escape:
  "hexval a = Some x \<Longrightarrow> hexval b = Some y \<Longrightarrow>
   unquote (CHR ''%'' # a # b # rest) = char_of (16 * x + y) # unquote rest"
  by simp

lemma hexval_hexdigit: "n < 16 \<Longrightarrow> hexval (hexdigit n) = Some n"
proof -
  assume "n < 16"
  moreover have "list_all (\<lambda>n. hexval (hexdigit n) = Some n) [0..<16]"
    by code_simp
  ultimately show ?thesis
    by (simp add: list_all_iff)
qed

lemma char_of_nibbles: "char_of (16 * ((of_char c :: nat) div 16) + of_char c mod 16) = c"
  by simp

lemma of_char_div_16: "(of_char c :: nat) div 16 < 16"
proof -
  have "(of_char c :: nat) < 16 * 16" by simp
  then show ?thesis by (rule less_mult_imp_div_less)
qed

lemma unquote_quoter:
  assumes "CHR ''%'' \<notin> set safe"
  shows "unquote (quoter safe c @ rest) = c # unquote rest"
proof (cases "c \<in> set safe \<or> c \<in> set always_safe")
  case True
  then have "c \<noteq> CHR ''%''"
    using assms by (auto simp: always_safe_def)
  with True show ?thesis
    by (simp add: quoter_def unquote_other)
next
  case False
  have "unquote (CHR ''%'' # hexdigit (of_char c div 16) # hexdigit (of_char c mod 16) # rest)
      = char_of (16 * ((of_char c :: nat) div 16) + of_char c mod 16) # unquote rest"
    by (rule unquote_escape) (simp_all add: hexval_hexdigit of_char_div_16)
  with False show ?thesis
    by (simp add: quoter_def del: unquote.simps)
qed

lemma unquote_quote: "CHR ''%'' \<notin> set safe \<Longrightarrow> unquote (quote v safe) = v"
  by (induction v) (simp_all add: quote_def unquote_quoter)

lemma quoter_no_semicolon:
  "CHR '';'' \<notin> set safe \<Longrightarrow> CHR '';'' \<notin> set (quoter safe c)"
proof -
  have "list_all (\<lambda>n. hexdigit n \<noteq> CHR '';'') [0..<16]"
    by code_simp
  then have h: "n < 16 \<Longrightarrow> hexdigit n \<noteq> CHR '';''" for n
    by (simp add: list_all_iff)
  have "hexdigit (of_char c div 16) \<noteq> CHR '';''" "hexdigit (of_char c mod 16) \<noteq> CHR '';''"
    by (rule h, simp add: of_char_div_16)+
  moreover have "CHR '';'' \<notin> set always_safe"
    by (simp add: always_safe_def)
  ultimately show "CHR '';'' \<notin> set safe \<Longrightarrow> ?thesis"
    by (auto simp: quoter_def)
qed

lemma quote_no_semicolon: "CHR '';'' \<notin> set safe \<Longrightarrow> CHR '';'' \<notin> set (quote v safe)"
  by (induction v) (simp_all add: quote_def quoter_no_semicolon)

lemma split_on_join:
  "items \<noteq> [] \<Longrightarrow> \<forall>i \<in> set items. c \<notin> set i \<Longrightarrow> split_on c (join [c] items) = items"
proof (induction "[c]" items rule: join.induct)
  case 1
  then show ?case by simp
next
  case (2 x)
  then show ?case by (simp add: split_on_no_sep)
next
  case (3 x y ys)
  then show ?case by (simp add: split_on_append_sep)
qed

lemma join_snoc_Nil: "items \<noteq> [] \<Longrightarrow> join sep (items @ [[]]) = join sep items @ sep"
  by (induction sep items rule: join.induct) simp_all

lemma join_ends: "items \<noteq> [] \<Longrightarrow> \<exists>pre. join sep items = pre @ last items"
proof (induction sep items rule: join.induct)
  case (1 sep)
  then show ?case by simp
next
  case (2 sep x)
  show ?case by simp
next
  case (3 sep x y ys)
  then obtain pre where "join sep (y # ys) = pre @ last (y # ys)"
    by auto
  then have "join sep (x # y # ys) = (x @ sep @ pre) @ last (x # y # ys)"
    by simp
  then show ?case by blast
qed

lemma last_join:
  "items \<noteq> [] \<Longrightarrow> last items \<noteq> [] \<Longrightarrow> last (join sep items) = last (last items)"
  using join_ends [of items sep] by auto

lemma join_not_Nil: "items \<noteq> [] \<Longrightarrow> hd items \<noteq> [] \<Longrightarrow> join sep items \<noteq> []"
  by (induction sep items rule: join.induct) simp_all


lemma first_seen_distinct: "distinct xs \<Longrightarrow> first_seen xs = xs"
  by (simp add: first_seen_def distinct_remdups_id)

lemma store_item_static:
  "priv_multivalued_attributes (store_item seg a) = priv_multivalued_attributes a"
  "priv_encode_values (store_item seg a) = priv_encode_values a"
  by (simp_all add: store_item_spec setitem_def Let_def)

lemma fold_store_static:
  "priv_multivalued_attributes (fold store_item segs a) = priv_multivalued_attributes a
   \<and> priv_encode_values (fold store_item segs a) = priv_encode_values a"
  by (induction segs arbitrary: a) (simp_all add: store_item_static)

lemma map_of_rev_distinct:
  "distinct (map fst kvs) \<Longrightarrow> (k, v) \<in> set kvs \<Longrightarrow> map_of (rev kvs) k = Some v"
  by (rule map_of_is_SomeI) (simp_all add: rev_map [symmetric])

lemma keyed_segment:
  assumes "CHR ''='' \<notin> set k" and "strip k = k" and "k \<noteq> []" and "strip e = e"
  shows "spec_keyed (k @ ''='' @ e)" and "spec_key (k @ ''='' @ e) = k"
    and "spec_value (k @ ''='' @ e) = unquote e"
proof -
  have t: "takeWhile (\<lambda>c. c \<noteq> CHR ''='') (k @ ''='' @ e) = k"
    and d: "dropWhile (\<lambda>c. c \<noteq> CHR ''='') (k @ ''='' @ e) = ''='' @ e"
    using assms(1) no_newline [of "CHR ''=''" k "''='' @ e"] by simp_all
  show "spec_keyed (k @ ''='' @ e)"
    unfolding spec_keyed_def t using assms by simp
  show "spec_key (k @ ''='' @ e) = k"
    unfolding spec_key_def t using assms by simp
  show "spec_value (k @ ''='' @ e) = unquote e"
    unfolding spec_value_def d using assms by simp
qed

lemma bare_segment:
  assumes "CHR ''='' \<notin> set b" and "strip b = b" and "unquote b = b"
  shows "\<not> spec_keyed b" and "spec_value b = b"
  using assms by (simp_all add: spec_keyed_def spec_value_def)


lemma drop_to_last: "xs \<noteq> [] \<Longrightarrow> drop (length xs - Suc 0) xs = [last xs]"
  by (cases xs rule: rev_cases) simp_all

text \<open>
  Claim C1, amended. Take any keyed tokens with distinct keys, each key non-empty, without
  \<^verbatim>\<open>;\<close> and \<^verbatim>\<open>=\<close> and without surrounding whitespace, and each value such that its
  escaped text has no surrounding whitespace; any bare tokens that are non-empty, without
  \<^verbatim>\<open>;\<close> and \<^verbatim>\<open>=\<close> and without surrounding whitespace, and that percent-decoding leaves
  as they are; and a trailing \<^verbatim>\<open>;\<close> only if there is a token. For the string that lists
  the keyed tokens as \<^verbatim>\<open>key=escaped value\<close>, then the bare tokens, joined by \<^verbatim>\<open>;\<close>,
  parsing gives back these keys and bare tokens, and serializing the result gives back the
  string.
\<close>

theorem canonical_round_trip:
  fixes kvs :: "(string \<times> string) list" and bare :: "string list" and trailing :: bool
  defines "items \<equiv> map (\<lambda>(k, v). k @ ''='' @ spec_written k v) kvs @ bare"
  assumes dist: "distinct (map fst kvs)"
    and kv: "\<forall>(k, v) \<in> set kvs. k \<noteq> [] \<and> CHR '';'' \<notin> set k \<and> CHR ''='' \<notin> set k
               \<and> strip k = k \<and> strip (spec_written k v) = spec_written k v"
    and br: "\<forall>b \<in> set bare. b \<noteq> [] \<and> CHR '';'' \<notin> set b \<and> CHR ''='' \<notin> set b
               \<and> strip b = b \<and> unquote b = b"
    and tr: "trailing \<longrightarrow> items \<noteq> []"
  shows "GFFAttributes_repr
           (GFFAttributes_init (join '';'' (items @ (if trailing then [[]] else []))))
         = Inr (join '';'' (items @ (if trailing then [[]] else [])))
    \<and> keys (GFFAttributes_init (join '';'' (items @ (if trailing then [[]] else []))))
         = map fst kvs
    \<and> nokeys (GFFAttributes_init (join '';'' (items @ (if trailing then [[]] else []))))
         = bare"
proof (cases "items = []")
  case True
  with tr have "\<not> trailing" by simp
  moreover from True have "kvs = []" "bare = []"
    by (simp_all add: items_def)
  ultimately show ?thesis
    by (simp add: items_def GFFAttributes_init_def GFFAttributes_repr_def keys_def nokeys_def
        GFFAttributes_empty_def)
next
  case False
  define item where "item = (\<lambda>(k, v). k @ ''='' @ spec_written k v)"
  define K where "K = map item kvs"
  define T where "T = (if trailing then [[]] else [] :: string list)"
  define s where "s = join '';'' (K @ bare @ T)"
  define a where "a = fold store_item (K @ bare @ T) GFFAttributes_empty"
  have items: "items = K @ bare"
    by (simp add: items_def K_def item_def)
  have pct: "CHR ''%'' \<notin> set '' ,:^*$@!+?|''" "CHR ''%'' \<notin> set '' :^*$@!+?|''"
    and sem: "CHR '';'' \<notin> set '' ,:^*$@!+?|''" "CHR '';'' \<notin> set '' :^*$@!+?|''"
    by simp_all
  have unq: "unquote (spec_written k v) = v" for k v
    unfolding spec_written_def using pct by (simp add: unquote_quote)
  have nosem: "CHR '';'' \<notin> set (spec_written k v)" for k v
    unfolding spec_written_def using sem by (simp add: quote_no_semicolon)
  have keyed: "spec_keyed (item p) \<and> spec_key (item p) = fst p \<and> spec_value (item p) = snd p
      \<and> CHR '';'' \<notin> set (item p) \<and> item p \<noteq> []" if "p \<in> set kvs" for p
  proof -
    obtain k v where p: "p = (k, v)" by (cases p)
    with that kv have h: "k \<noteq> []" "CHR '';'' \<notin> set k" "CHR ''='' \<notin> set k" "strip k = k"
      "strip (spec_written k v) = spec_written k v"
      by auto
    show ?thesis
      using keyed_segment [OF h(3) h(4) h(1) h(5)] h(1) h(2) nosem [of k v]
      by (simp add: p item_def unq)
  qed
  have bares: "b \<noteq> [] \<and> \<not> spec_keyed b \<and> spec_value b = b \<and> CHR '';'' \<notin> set b"
    if "b \<in> set bare" for b
    using that br bare_segment [of b] by auto
  have fK: "filter spec_keyed K = K"
    and fB: "filter spec_keyed bare = []"
    and fT: "filter spec_keyed T = []"
    using keyed bares by (auto simp: K_def T_def filter_empty_conv spec_keyed_def)
  have gK: "filter (\<lambda>seg. seg \<noteq> [] \<and> \<not> spec_keyed seg) K = []"
    and gB: "filter (\<lambda>seg. seg \<noteq> [] \<and> \<not> spec_keyed seg) bare = bare"
    and gT: "filter (\<lambda>seg. seg \<noteq> [] \<and> \<not> spec_keyed seg) T = []"
    using keyed bares by (auto simp: K_def T_def filter_empty_conv filter_id_conv)
  have mK: "map spec_key K = map fst kvs"
    and mKV: "map (\<lambda>seg. (spec_key seg, spec_value seg)) K = kvs"
    using keyed by (auto simp: K_def intro: map_idI)
  have mB: "map spec_value bare = bare"
    using bares by (auto intro: map_idI)
  have a_keys: "priv_keys a = map fst kvs"
    unfolding a_def fold_store_keys by (simp add: fK fB fT mK first_seen_distinct [OF dist])
  have a_dict: "priv_dict a = map_of (rev kvs)"
    unfolding a_def fold_store_dict by (simp add: fK fB fT mKV)
  have a_nokeys: "priv_nokeys a = bare"
    unfolding a_def fold_store_nokeys by (simp add: gK gB gT mB GFFAttributes_empty_def)
  have a_static: "priv_multivalued_attributes a
        = [''Parent'', ''Alias'', ''Note'', ''Dbxref'', ''Ontology_term'']"
      "priv_encode_values a = PyBool True"
    unfolding a_def by (simp_all add: fold_store_static GFFAttributes_empty_def)
  have nonempty: "K @ bare @ T \<noteq> []" and hd_ne: "hd (K @ bare @ T) \<noteq> []"
    using False keyed bares unfolding items
    by (auto simp: K_def hd_append hd_map neq_Nil_conv)
  have no_sep: "\<forall>i \<in> set (K @ bare @ T). CHR '';'' \<notin> set i"
    using keyed bares by (auto simp: K_def T_def)
  have split: "split_on (CHR '';'') s = K @ bare @ T"
    unfolding s_def using split_on_join [OF nonempty no_sep] by simp
  have s_ne: "s \<noteq> []"
    unfolding s_def by (rule join_not_Nil [OF nonempty hd_ne])
  have ends: "endswith s '';'' = trailing"
  proof (cases trailing)
    case True
    have "s = join '';'' (K @ bare) @ '';''"
      using False True join_snoc_Nil [of "K @ bare" "'';''"]
      by (simp add: s_def T_def items)
    then show ?thesis
      using True by (simp add: endswith_def)
  next
    case no: False
    have l: "last (K @ bare) \<noteq> []" "CHR '';'' \<notin> set (last (K @ bare))"
      using False keyed bares last_in_set [of "K @ bare"] unfolding items
      by (auto simp: K_def)
    have "last s = last (last (K @ bare))"
      using False no last_join [of "K @ bare" "'';''"] l
      by (simp add: s_def T_def items)
    moreover have "last (last (K @ bare)) \<in> set (last (K @ bare))"
      by (rule last_in_set [OF l(1)])
    ultimately have "last s \<noteq> CHR '';''"
      using l(2) by auto
    moreover have "drop (length s - Suc 0) s = [last s]"
      by (rule drop_to_last [OF s_ne])
    ultimately show ?thesis
      using no by (simp add: endswith_def)
  qed
  have init: "GFFAttributes_init s = a\<lparr>priv_trailing_semicolon := trailing\<rparr>"
    using s_ne by (simp add: GFFAttributes_init_def split a_def ends)
  define self where "self = a\<lparr>priv_trailing_semicolon := trailing\<rparr>"
  have enc: "truthy (priv_encode_values self)"
    by (simp add: self_def a_static)
  have vals: "getitem self k = Inr (the (map_of (rev kvs) k))" if "k \<in> set (map fst kvs)" for k
  proof -
    from that obtain v where "(k, v) \<in> set kvs" by auto
    then have "map_of (rev kvs) k = Some v"
      by (rule map_of_rev_distinct [OF dist])
    with that show ?thesis
      by (simp add: getitem_def self_def a_keys a_dict)
  qed
  have "keyed_items self (map fst kvs) =
     Inr (map (\<lambda>k. k @ ''='' @ concat (map (quoter (if k \<in> set (priv_multivalued_attributes self)
                     then '' ,:^*$@!+?|'' else '' :^*$@!+?|'')) (the (map_of (rev kvs) k))))
            (map fst kvs))"
    by (rule keyed_items_all [OF enc]) (rule vals)
  also have "map (\<lambda>k. k @ ''='' @ concat (map (quoter (if k \<in> set (priv_multivalued_attributes self)
                     then '' ,:^*$@!+?|'' else '' :^*$@!+?|'')) (the (map_of (rev kvs) k))))
            (map fst kvs) = K"
    unfolding K_def map_map
  proof (rule map_cong [OF refl])
    fix p assume pin: "p \<in> set kvs"
    obtain k v where p: "p = (k, v)"
      by (cases p)
    from pin p have m: "(k, v) \<in> set kvs"
      by simp
    have "map_of (rev kvs) k = Some v"
      by (rule map_of_rev_distinct [OF dist m])
    then show "((\<lambda>k. k @ ''='' @ concat (map (quoter (if k \<in> set (priv_multivalued_attributes self)
                     then '' ,:^*$@!+?|'' else '' :^*$@!+?|'')) (the (map_of (rev kvs) k)))) \<circ> fst) p
        = item p"
      by (simp add: p item_def spec_written_def quote_def self_def a_static)
  qed
  finally have ki: "keyed_items self (keys self) = Inr K"
    by (simp add: keys_def self_def a_keys)
  have "GFFAttributes_repr self = Inr s"
    unfolding GFFAttributes_repr_def ki
    by (simp add: self_def a_nokeys s_def T_def)
  moreover have "keys self = map fst kvs" "nokeys self = bare"
    by (simp_all add: keys_def nokeys_def self_def a_keys a_nokeys)
  moreover have "join '';'' (items @ (if trailing then [[]] else [])) = s"
    by (simp add: s_def items T_def)
  ultimately show ?thesis
    by (simp add: init self_def)
qed


theorem canonical_round_trip_witness:
  "GFFAttributes_repr (GFFAttributes_init ''ID=a%3Bb;Note=x,y z;d=p%2Cq;58-59;'')
     = Inr ''ID=a%3Bb;Note=x,y z;d=p%2Cq;58-59;''
   \<and> keys (GFFAttributes_init ''ID=a%3Bb;Note=x,y z;d=p%2Cq;58-59;'') = [''ID'', ''Note'', ''d'']
   \<and> nokeys (GFFAttributes_init ''ID=a%3Bb;Note=x,y z;d=p%2Cq;58-59;'') = [''58-59'']"
proof -
  define kvs where "kvs = [(''ID'', ''a;b''), (''Note'', ''x,y z''), (''d'', ''p,q'')]"
  define bare where "bare = [''58-59'']"
  have w: "spec_written ''ID'' ''a;b'' = ''a%3Bb''" "spec_written ''Note'' ''x,y z'' = ''x,y z''"
    "spec_written ''d'' ''p,q'' = ''p%2Cq''"
    by (simp_all add: spec_written_def quote_def quoter_def always_safe_def hexdigit_def)
  have st: "strip ''ID'' = ''ID''" "strip ''Note'' = ''Note''" "strip ''d'' = ''d''"
    "strip ''a%3Bb'' = ''a%3Bb''" "strip ''x,y z'' = ''x,y z''" "strip ''p%2Cq'' = ''p%2Cq''"
    "strip ''58-59'' = ''58-59''"
    by (simp_all add: strip_def isspace_def)
  have h1: "distinct (map fst kvs)"
    by (simp add: kvs_def)
  have h2: "\<forall>(k, v) \<in> set kvs. k \<noteq> [] \<and> CHR '';'' \<notin> set k \<and> CHR ''='' \<notin> set k
               \<and> strip k = k \<and> strip (spec_written k v) = spec_written k v"
    by (simp add: kvs_def w st)
  have h3: "\<forall>b \<in> set bare. b \<noteq> [] \<and> CHR '';'' \<notin> set b \<and> CHR ''='' \<notin> set b
               \<and> strip b = b \<and> unquote b = b"
    by (simp add: bare_def st)
  have h4: "True \<longrightarrow> map (\<lambda>(k, v). k @ ''='' @ spec_written k v) kvs @ bare \<noteq> []"
    by (simp add: kvs_def)
  have s: "join '';'' ((map (\<lambda>(k, v). k @ ''='' @ spec_written k v) kvs @ bare)
                          @ (if True then [[]] else []))
            = ''ID=a%3Bb;Note=x,y z;d=p%2Cq;58-59;''"
    by (simp add: kvs_def bare_def w)
  from canonical_round_trip [OF h1 h2 h3 h4] show ?thesis
    unfolding s by (simp add: kvs_def bare_def)
qed

text \<open>
  Further strings without repeated keys that parsing and serializing changes, each by an
  explicit step of the code: whitespace around keys and values is stripped; a value is
  decoded and written again in the escaped form with upper-case digits; empty segments are
  skipped; a segment with an empty key gives a bare token.
\<close>

lemma round_trip_changes_by_design:
  "GFFAttributes_repr (GFFAttributes_init '' a = 1 '') = Inr ''a=1''"
  "GFFAttributes_repr (GFFAttributes_init ''a=%3b'') = Inr ''a=%3B''"
  "GFFAttributes_repr (GFFAttributes_init ''a=<'') = Inr ''a=%3C''"
  "GFFAttributes_repr (GFFAttributes_init ''a=1;;b=2'') = Inr ''a=1;b=2''"
  "GFFAttributes_repr (GFFAttributes_init ''=v'') = Inr ''v''"
  by code_simp+

text \<open>
  Claim C1 as stated fails: the string \<^verbatim>\<open>b;a=1\<close> has no repeated key, and it is
  serialized as \<^verbatim>\<open>a=1;b\<close>, since the keyed tokens are written before the bare ones.
\<close>

theorem bare_before_keyed_counterexample:
  "distinct (spec_item_keys ''b;a=1'')
   \<and> GFFAttributes_repr (GFFAttributes_init ''b;a=1'') = Inr ''a=1;b''
   \<and> GFFAttributes_repr (GFFAttributes_init ''b;a=1'') \<noteq> Inr ''b;a=1''"
  by (simp add: spec_item_keys_def spec_keyed_def spec_key_def GFFAttributes_repr_def
      GFFAttributes_init_def store_item_def key_value_def str_index_def strip_def isspace_def
      setitem_def getitem_def keys_def endswith_def escape_value_def quote_def quoter_def
      always_safe_def GFFAttributes_empty_def)

end
